theory Spec2Isabelle
  imports Main "HOL-Library.AList"
begin

section \<open>Toast notifications\<close>

subsection \<open>The static page: \<open>show_notification\<close> and \<open>remove_notification\<close>\<close>

text \<open>
  \<open>notification_list\<close> is a JavaScript \<open>Map\<close>: an association list in insertion order.
  \<open>Map.set\<close> on a new key appends, on an old key it replaces in place: \<open>AList.update\<close>.
  \<open>Map.delete\<close> is \<open>AList.delete\<close>. The DOM element of an entry mirrors the entry and is
  not modelled; neither are the 10 ms timer that only adds the CSS class \<open>show\<close> and the
  console output.

  \<open>setTimeout\<close> callbacks are kept as a list of pending timers; \<open>fire_timeout k\<close> runs the
  \<open>k\<close>-th pending one.
\<close>

record notification =
  n_type :: string
  n_title :: string
  n_message :: string

datatype timeout =
    AutoRemove nat    \<comment> \<open>\<open>setTimeout(() => remove_notification(id), duration)\<close>\<close>
  | DeleteEntry nat   \<comment> \<open>the 300 ms timer inside \<open>remove_notification\<close>\<close>

record notif_state =
  notification_list :: "(nat \<times> notification) list"
  notification_id :: nat
  timeouts :: "timeout list"

record notif_options =
  opt_duration :: "int option"
  opt_persistent :: bool

definition max_notifications :: nat where
  "max_notifications = 5"

definition default_duration :: int where
  "default_duration = 5000"

definition notif_init :: notif_state where
  "notif_init = \<lparr>notification_list = [], notification_id = 1, timeouts = []\<rparr>"

definition no_options :: notif_options where
  "no_options = \<lparr>opt_duration = None, opt_persistent = False\<rparr>"

definition remove_notification :: "nat \<Rightarrow> notif_state \<Rightarrow> notif_state" where
  "remove_notification i s =
     (case map_of (notification_list s) i of
        None \<Rightarrow> s
      | Some n \<Rightarrow> s\<lparr>timeouts := timeouts s @ [DeleteEntry i]\<rparr>)"

definition show_notification ::
  "string \<Rightarrow> string \<Rightarrow> string \<Rightarrow> notif_options \<Rightarrow> notif_state \<Rightarrow> nat \<times> notif_state" where
  "show_notification ty title message options s =
     (let i = notification_id s;
          s1 = s\<lparr>notification_id := Suc i\<rparr>;
          duration = (case opt_duration options of None \<Rightarrow> default_duration | Some d \<Rightarrow> d);
          persistent = opt_persistent options;
          s2 = (if length (notification_list s1) \<ge> max_notifications
                then (case notification_list s1 of
                        [] \<Rightarrow> s1
                      | (oldest_id, _) # _ \<Rightarrow> remove_notification oldest_id s1)
                else s1);
          s3 = s2\<lparr>notification_list :=
                    AList.update i \<lparr>n_type = ty, n_title = title, n_message = message\<rparr>
                      (notification_list s2)\<rparr>;
          s4 = (if \<not> persistent \<and> duration > 0
                then s3\<lparr>timeouts := timeouts s3 @ [AutoRemove i]\<rparr>
                else s3)
      in (i, s4))"

fun run_timeout :: "timeout \<Rightarrow> notif_state \<Rightarrow> notif_state" where
  "run_timeout (AutoRemove i) s = remove_notification i s"
| "run_timeout (DeleteEntry i) s =
     s\<lparr>notification_list := AList.delete i (notification_list s)\<rparr>"

definition fire_timeout :: "nat \<Rightarrow> notif_state \<Rightarrow> notif_state" where
  "fire_timeout k s =
     (if k < length (timeouts s)
      then run_timeout (timeouts s ! k)
             (s\<lparr>timeouts := take k (timeouts s) @ drop (Suc k) (timeouts s)\<rparr>)
      else s)"

text \<open>Pending timers fire one after the other, the \<open>k\<close>-th pending one each time.\<close>

fun fire_timeouts :: "nat list \<Rightarrow> notif_state \<Rightarrow> notif_state" where
  "fire_timeouts [] s = s"
| "fire_timeouts (k # ks) s = fire_timeouts ks (fire_timeout k s)"

definition showError :: "string \<Rightarrow> string \<Rightarrow> notif_options \<Rightarrow> notif_state \<Rightarrow> nat \<times> notif_state" where
  "showError title message options s = show_notification ''error'' title message options s"

definition showWarning :: "string \<Rightarrow> string \<Rightarrow> notif_options \<Rightarrow> notif_state \<Rightarrow> nat \<times> notif_state" where
  "showWarning title message options s = show_notification ''warning'' title message options s"

definition showSuccess :: "string \<Rightarrow> string \<Rightarrow> notif_options \<Rightarrow> notif_state \<Rightarrow> nat \<times> notif_state" where
  "showSuccess title message options s = show_notification ''success'' title message options s"

definition showInfo :: "string \<Rightarrow> string \<Rightarrow> notif_options \<Rightarrow> notif_state \<Rightarrow> nat \<times> notif_state" where
  "showInfo title message options s = show_notification ''info'' title message options s"

text \<open>The keys of the map are the ids handed out so far, each at most once.\<close>

definition notif_wf :: "notif_state \<Rightarrow> bool" where
  "notif_wf s \<longleftrightarrow>
     distinct (map fst (notification_list s)) \<and>
     list_all (\<lambda>k. k < notification_id s) (map fst (notification_list s))"

text \<open>\<open>n\<close> persistent toasts shown one after the other, with no timer firing in between.\<close>

fun show_many :: "nat \<Rightarrow> notif_state \<Rightarrow> notif_state" where
  "show_many 0 s = s"
| "show_many (Suc n) s =
     show_many n (snd (show_notification ''info'' ''t'' ''m''
        \<lparr>opt_duration = Some 0, opt_persistent = True\<rparr> s))"

subsection \<open>The React hook: \<open>useNotifications.addNotification\<close>\<close>

text \<open>
  \<open>Array.prototype.slice(start)\<close> with one argument: a negative \<open>start\<close> counts from the
  end, and \<open>slice(-0)\<close> is \<open>slice(0)\<close>.
\<close>

definition js_slice :: "int \<Rightarrow> 'a list \<Rightarrow> 'a list" where
  "js_slice start xs =
     (let n = int (length xs);
          k = (if start < 0 then max (n + start) 0 else min start n)
      in drop (nat k) xs)"

record 'i rnotification =
  rn_id :: 'i
  rn_type :: string
  rn_title :: string
  rn_message :: string

text \<open>
  The updater passed to \<open>setNotifications\<close> by \<open>addNotification\<close>; \<open>maxNotifications\<close> is
  \<open>config.maxNotifications\<close>, the integer parsed from the environment (5 when unset).
\<close>

definition addNotification :: "int \<Rightarrow> 'a \<Rightarrow> 'a list \<Rightarrow> 'a list" where
  "addNotification maxNotifications notification prev =
     (let updated = prev @ [notification]
      in if int (length updated) > maxNotifications
         then js_slice (- maxNotifications) updated
         else updated)"

definition removeNotification :: "'i \<Rightarrow> 'i rnotification list \<Rightarrow> 'i rnotification list" where
  "removeNotification i prev = filter (\<lambda>n. rn_id n \<noteq> i) prev"

section \<open>Strings\<close>

text \<open>Template literals print numbers in decimal.\<close>

fun show_nat :: "nat \<Rightarrow> string" where
  "show_nat n =
     (if n < 10 then [''0123456789'' ! n]
      else show_nat (n div 10) @ [''0123456789'' ! (n mod 10)])"

declare show_nat.simps [simp del]

definition show_int :: "int \<Rightarrow> string" where
  "show_int i = (if i < 0 then ''-'' @ show_nat (nat (- i)) else show_nat (nat i))"

text \<open>
  \<open>a || b\<close> on an optional string: \<open>undefined\<close> and the empty string are falsy.
\<close>

definition js_or :: "string option \<Rightarrow> string \<Rightarrow> string" where
  "js_or a b = (case a of None \<Rightarrow> b | Some x \<Rightarrow> if x = [] then b else x)"

text \<open>
  \<open>String.prototype.trim\<close>. A \<open>char\<close> stands for a code unit below 256; the white space
  among those is TAB, LF, VT, FF, CR, SP and NBSP.
\<close>

definition is_white_space :: "char \<Rightarrow> bool" where
  "is_white_space c \<longleftrightarrow> of_char c \<in> {9, 10, 11, 12, 13, 32, 160 :: nat}"

definition trim :: "string \<Rightarrow> string" where
  "trim s = rev (dropWhile is_white_space (rev (dropWhile is_white_space s)))"

text \<open>\<open>String.prototype.includes\<close>: the needle occurs as a contiguous substring.\<close>

fun str_includes :: "string \<Rightarrow> string \<Rightarrow> bool" where
  "str_includes [] needle = (needle = [])"
| "str_includes (c # cs) needle =
     (take (length needle) (c # cs) = needle \<or> str_includes cs needle)"

section \<open>The global \<open>fetch\<close> wrapper\<close>

text \<open>
  A \<open>Response\<close> as the wrapper uses it: status line, body and the \<open>bodyUsed\<close> flag of the
  Fetch API. The body is held as what \<open>JSON.parse\<close> makes of its text: \<open>Unparsable\<close> when
  parsing throws or the value has no members, otherwise the members \<open>error\<close> and \<open>message\<close>.
  Reading the body (\<open>text()\<close>, \<open>json()\<close>) sets \<open>bodyUsed\<close>; a second read rejects with a
  \<open>TypeError\<close>.
\<close>

datatype parsed_body = Unparsable | Parsed (member_error: "string option") (member_message: "string option")

record response =
  status :: nat
  statusText :: string
  body :: parsed_body
  bodyUsed :: bool

datatype 'a fetch_result = Rejected string | Resolved 'a

definition response_ok :: "response \<Rightarrow> bool" where
  "response_ok r \<longleftrightarrow> 200 \<le> status r \<and> status r \<le> 299"

definition body_already_read :: string where
  "body_already_read = ''body stream already read''"

definition response_text :: "response \<Rightarrow> string + (parsed_body \<times> response)" where
  "response_text r =
     (if bodyUsed r then Inl body_already_read else Inr (body r, r\<lparr>bodyUsed := True\<rparr>))"

definition response_json :: "response \<Rightarrow> string + (parsed_body \<times> response)" where
  "response_json r =
     (if bodyUsed r then Inl body_already_read
      else case body r of
             Unparsable \<Rightarrow> Inl ''Unexpected token''
           | Parsed e m \<Rightarrow> Inr (Parsed e m, r\<lparr>bodyUsed := True\<rparr>))"

definition http_status_line :: "response \<Rightarrow> string" where
  "http_status_line r = ''HTTP '' @ show_nat (status r) @ '': '' @ statusText r"

text \<open>
  \<open>window.fetch = async function(url, options = {})\<close>. \<open>original_fetch\<close> is the browser's
  fetch, a parameter: what it yields for the URL. The toasts go to the notification state.
\<close>

definition fetch_wrapper ::
  "(string \<Rightarrow> response fetch_result) \<Rightarrow> string \<Rightarrow> bool \<Rightarrow> notif_state
     \<Rightarrow> response fetch_result \<times> notif_state" where
  "fetch_wrapper original_fetch url skipNotification ns =
     (let on_throw = (\<lambda>message.
            (Rejected message,
             if \<not> skipNotification
             then snd (showError ''Connection Error''
                         (''Failed to connect to server: '' @ message) no_options ns)
             else ns))
      in case original_fetch url of
           Rejected message \<Rightarrow> on_throw message
         | Resolved r \<Rightarrow>
             if \<not> response_ok r \<and> \<not> skipNotification
             then (case response_text r of
                     Inl message \<Rightarrow> on_throw message
                   | Inr (error_data, r') \<Rightarrow>
                       let error_message =
                             (case error_data of
                                Unparsable \<Rightarrow> http_status_line r
                              | Parsed e m \<Rightarrow> js_or e (js_or m (http_status_line r)))
                       in (Resolved r',
                           snd (showError ''Network Error'' error_message no_options ns)))
             else (Resolved r, ns))"

text \<open>The request failed: the underlying fetch threw, or the response is not 2xx.\<close>

definition request_failed :: "response fetch_result \<Rightarrow> bool" where
  "request_failed res = (case res of Rejected _ \<Rightarrow> True | Resolved r \<Rightarrow> \<not> response_ok r)"

text \<open>A 500 response with a JSON error body, as the server sends it.\<close>

definition server_error_500 :: response where
  "server_error_500 =
     \<lparr>status = 500, statusText = ''INTERNAL SERVER ERROR'',
      body = Parsed (Some ''boom'') None, bodyUsed = False\<rparr>"

section \<open>The static search page\<close>

subsection \<open>Requests, replies and the page\<close>

text \<open>
  \<open>body_data\<close> is the object that \<open>perform_search\<close> builds and sends as
  \<open>JSON.stringify(body_data)\<close>; \<open>hybrid_function\<close> is a member only in hybrid mode. A request
  is recorded with its URL and, for a POST, that object.
\<close>

record body_data =
  bd_query :: string
  bd_max_results :: int
  bd_hybrid_function :: "int option"

datatype request = POST string body_data | GET string

record warning =
  w_message :: string
  w_reason :: "string option"

text \<open>The members of a search response body that the page reads; \<open>None\<close> is \<open>undefined\<close>.\<close>

record search_data =
  sd_status :: "string option"
  sd_message :: "string option"
  sd_error :: "string option"
  sd_results :: "string list option"
  sd_total :: "int option"
  sd_warning :: "warning option"

text \<open>
  What \<open>await fetch(...)\<close> followed by \<open>await response.json()\<close> gives the caller: either one
  of the two rejects, with the \<open>message\<close> of the error, or there are a status code and a
  parsed body. For the status endpoint the body is read as \<open>ready_for_search\<close> (its
  truthiness) and \<open>model_status\<close>.
\<close>

datatype search_reply = SearchFailed string | SearchReplied nat search_data

datatype status_reply = StatusFailed string | StatusData bool string

text \<open>
  What the page has surfaced as the outcome of a search: every call of \<open>display_results\<close>
  and of \<open>show_error_message\<close>, in order.
\<close>

datatype outcome = Results search_data | ErrorMessage string

datatype page_timeout =
    RemoveLoading nat            \<comment> \<open>the 2000 ms timer of the ready branch\<close>
  | RemoveLoadingThenError nat   \<comment> \<open>the 3000 ms timer of the timeout branch\<close>

text \<open>
  The page: the form controls, the \<open>style.display\<close> of the result elements
  (\<open>model_loading_indicator\<close> exists only once created: its text and display),
  the search button, \<open>search_input.dataset.loadingNotificationId\<close>, the toasts, the pending
  \<open>setTimeout\<close> callbacks of the poller, the requests sent and the outcomes surfaced.
\<close>

record page =
  search_input_value :: string
  max_results_select :: int
  is_hybrid_search :: bool
  hybrid_function_select :: int
  welcome_display :: "string option"
  loading_display :: string
  no_results_display :: string
  results_list_display :: string
  results_list_items :: "string list"
  model_loading_indicator :: "(string \<times> string) option"
  button_disabled :: bool
  button_text :: string
  button_loading :: bool
  loadingNotificationId :: "nat option"
  notifs :: notif_state
  page_timeouts :: "page_timeout list"
  requests :: "request list"
  shown :: "outcome list"

definition ok_status :: "nat \<Rightarrow> bool" where
  "ok_status st \<longleftrightarrow> 200 \<le> st \<and> st \<le> 299"

subsection \<open>Showing and hiding\<close>

definition hide_welcome_section :: "page \<Rightarrow> page" where
  "hide_welcome_section p = p\<lparr>welcome_display := map_option (\<lambda>_. ''none'') (welcome_display p)\<rparr>"

definition hide_all_result_elements :: "page \<Rightarrow> page" where
  "hide_all_result_elements p =
     p\<lparr>loading_display := ''none'',
       no_results_display := ''none'',
       results_list_display := ''none'',
       model_loading_indicator := map_option (\<lambda>(t, d). (t, ''none'')) (model_loading_indicator p)\<rparr>"

definition show_loading :: "page \<Rightarrow> page" where
  "show_loading p =
     (hide_all_result_elements p)
       \<lparr>loading_display := ''flex'',
        button_disabled := True,
        button_text := ''Searching...'',
        button_loading := True\<rparr>"

definition hide_model_loading :: "page \<Rightarrow> page" where
  "hide_model_loading p =
     (let p1 = p\<lparr>model_loading_indicator :=
                   map_option (\<lambda>(t, d). (t, ''none'')) (model_loading_indicator p),
                 button_loading := False\<rparr>
      in case loadingNotificationId p1 of
           None \<Rightarrow> p1
         | Some i \<Rightarrow> p1\<lparr>notifs := remove_notification i (notifs p1),
                        loadingNotificationId := None\<rparr>)"

definition hide_loading :: "page \<Rightarrow> page" where
  "hide_loading p =
     hide_model_loading
       (p\<lparr>loading_display := ''none'',
          button_disabled := False,
          button_text := ''Search'',
          button_loading := False\<rparr>)"

definition show_model_loading_message :: "string option \<Rightarrow> page \<Rightarrow> page" where
  "show_model_loading_message message p =
     (let p1 = hide_all_result_elements p;
          (loading_notification_id, ns) =
             showInfo ''Model Loading''
               ''The AI model is loading. Please wait while we prepare your search...''
               \<lparr>opt_duration = Some 0, opt_persistent = True\<rparr> (notifs p1)
      in p1\<lparr>notifs := ns,
            loadingNotificationId := Some loading_notification_id,
            model_loading_indicator := Some (case message of None \<Rightarrow> [] | Some m \<Rightarrow> m, ''flex''),
            button_disabled := True,
            button_text := ''Loading Model...'',
            button_loading := True\<rparr>)"

text \<open>
  \<open>update_model_loading_message\<close> also calls \<open>update_notification_message\<close> with the
  \<open>dataset\<close> string as key; the keys of \<open>notification_list\<close> are numbers, so that lookup
  finds nothing and the toast stays as it is.
\<close>

definition update_model_loading_message :: "string \<Rightarrow> page \<Rightarrow> page" where
  "update_model_loading_message message p =
     p\<lparr>model_loading_indicator :=
         map_option (\<lambda>(t, d). (message, d)) (model_loading_indicator p)\<rparr>"

definition show_results :: "page \<Rightarrow> page" where
  "show_results p = (hide_all_result_elements p)\<lparr>results_list_display := ''flex''\<rparr>"

definition show_no_results :: "page \<Rightarrow> page" where
  "show_no_results p = (hide_all_result_elements p)\<lparr>no_results_display := ''block''\<rparr>"

definition show_error_message :: "string \<Rightarrow> page \<Rightarrow> page" where
  "show_error_message message p =
     (let p1 = hide_all_result_elements p
      in p1\<lparr>notifs := snd (showError ''Search Error'' message no_options (notifs p1)),
            shown := shown p1 @ [ErrorMessage message]\<rparr>)"

definition show_warning_message :: "warning \<Rightarrow> page \<Rightarrow> page" where
  "show_warning_message w p =
     (let message = (case w_reason w of
                       None \<Rightarrow> w_message w
                     | Some r \<Rightarrow> if r = [] then w_message w else w_message w @ '' ('' @ r @ '')'')
      in p\<lparr>notifs := snd (showWarning ''Search Warning'' message no_options (notifs p))\<rparr>)"

definition display_normal_results :: "string list \<Rightarrow> page \<Rightarrow> page" where
  "display_normal_results rs p = show_results (p\<lparr>results_list_items := rs\<rparr>)"

definition display_results :: "search_data \<Rightarrow> page \<Rightarrow> page" where
  "display_results data p =
     (let p0 = p\<lparr>shown := shown p @ [Results data]\<rparr>;
          p1 = (case sd_warning data of None \<Rightarrow> p0 | Some w \<Rightarrow> show_warning_message w p0)
      in case sd_results data of
           None \<Rightarrow> show_no_results p1
         | Some rs \<Rightarrow> if sd_total data = Some 0 then show_no_results p1
                      else display_normal_results rs p1)"

subsection \<open>\<open>perform_search\<close>\<close>

text \<open>
  An \<open>async\<close> function runs up to its next \<open>await\<close> and resumes when the awaited reply is
  there. \<open>perform_search\<close> is its part before the first \<open>await\<close>: it yields the request left
  in flight, if any. \<open>perform_search_reply\<close> is the rest, run on the reply; on a 202 with
  status \<open>model_loading\<close> it yields the poller that \<open>poll_for_model_ready_and_search\<close> starts.
\<close>

record poller =
  pl_search_data :: body_data
  pl_endpoint :: string
  attempts :: nat
  timer_active :: bool
  status_inflight :: nat
  retry_inflight :: nat

definition perform_search :: "page \<Rightarrow> (string \<times> body_data) option \<times> page" where
  "perform_search p =
     (let query = trim (search_input_value p);
          max_results = max_results_select p;
          hybrid_function = (if is_hybrid_search p then hybrid_function_select p else 1)
      in if query = [] then (None, show_error_message ''Please enter a search query'' p)
         else
           let p1 = show_loading (hide_welcome_section p);
               endpoint = (if is_hybrid_search p then ''/search_complex'' else ''/search'');
               body_data = \<lparr>bd_query = query, bd_max_results = max_results,
                            bd_hybrid_function =
                              (if is_hybrid_search p then Some hybrid_function else None)\<rparr>
           in (Some (endpoint, body_data),
               p1\<lparr>requests := requests p1 @ [POST endpoint body_data]\<rparr>))"

definition poll_for_model_ready_and_search :: "body_data \<Rightarrow> string \<Rightarrow> poller" where
  "poll_for_model_ready_and_search search_data endpoint =
     \<lparr>pl_search_data = search_data, pl_endpoint = endpoint, attempts = 0,
      timer_active = True, status_inflight = 0, retry_inflight = 0\<rparr>"

definition search_failed :: "string \<Rightarrow> page \<Rightarrow> page" where
  "search_failed message p = hide_loading (show_error_message (''Search failed: '' @ message) p)"

definition http_error :: "search_data \<Rightarrow> nat \<Rightarrow> string" where
  "http_error data st = js_or (sd_error data) (''HTTP error! status: '' @ show_nat st)"

definition perform_search_reply ::
  "string \<Rightarrow> body_data \<Rightarrow> search_reply \<Rightarrow> page \<Rightarrow> poller option \<times> page" where
  "perform_search_reply endpoint body_data reply p =
     (case reply of
        SearchFailed message \<Rightarrow> (None, search_failed message p)
      | SearchReplied st data \<Rightarrow>
          if st = 202 \<and> sd_status data = Some ''model_loading''
          then
            let p1 = show_model_loading_message (sd_message data) p
            in (case sd_message data of
                  None \<Rightarrow>
                    (None, search_failed ''Cannot read properties of undefined'' p1)
                | Some m \<Rightarrow>
                    let p2 = (if str_includes m ''now loading''
                              then p1\<lparr>notifs := snd (showInfo ''First Search Setup''
                                     ''Initializing AI model for the first time. Subsequent searches will be much faster!''
                                     \<lparr>opt_duration = Some 8000, opt_persistent = False\<rparr>
                                     (notifs p1))\<rparr>
                              else p1)
                    in (Some (poll_for_model_ready_and_search body_data endpoint),
                        hide_loading p2))
          else if \<not> ok_status st then (None, search_failed (http_error data st) p)
          else (None, hide_loading (display_results data p)))"

subsection \<open>The readiness poller\<close>

text \<open>
  The closure of one call of \<open>poll_for_model_ready_and_search\<close>: its two arguments, the
  counter \<open>attempts\<close>, whether \<open>poll_timer\<close> is still set, and how many of its timer callbacks
  are suspended at the status request and at the retried search request.

  \<open>tick_fire\<close> is the timer callback up to \<open>await fetch('/api/search/status')\<close>; a cleared
  timer does not fire. \<open>status_arrives\<close> resumes one suspended callback with the reply to its
  status request, \<open>retry_arrives\<close> with the reply to its retried search; a reply that no
  callback waits for cannot arrive and changes nothing. The calls of
  \<open>update_notification_message\<close> in the ready and timeout branches pass the \<open>dataset\<close>
  string as key and so update no toast.
\<close>

definition max_attempts :: nat where
  "max_attempts = 60"

text \<open>\<open>clearInterval(poll_timer)\<close>.\<close>

definition clear_poll_timer :: "poller \<Rightarrow> poller" where
  "clear_poll_timer pl = pl\<lparr>timer_active := False\<rparr>"

definition poll_catch :: "string \<Rightarrow> poller \<times> page \<Rightarrow> poller \<times> page" where
  "poll_catch message = (\<lambda>(pl, p).
     let p1 = (case loadingNotificationId p of
                 None \<Rightarrow> p
               | Some i \<Rightarrow> p\<lparr>notifs := remove_notification i (notifs p),
                             loadingNotificationId := None\<rparr>)
     in (clear_poll_timer pl, search_failed message p1))"

definition tick_fire :: "poller \<times> page \<Rightarrow> poller \<times> page" where
  "tick_fire = (\<lambda>(pl, p).
     if timer_active pl
     then (pl\<lparr>attempts := Suc (attempts pl), status_inflight := Suc (status_inflight pl)\<rparr>,
           p\<lparr>requests := requests p @ [GET ''/api/search/status'']\<rparr>)
     else (pl, p))"

definition progress_message :: "string \<Rightarrow> nat \<Rightarrow> string" where
  "progress_message model_status n =
     (if model_status = ''loading''
      then ''AI model is loading, please wait... ('' @ show_nat n @ ''s elapsed)''
      else ''Loading model... ('' @ show_nat n @ ''s)'')"

definition status_arrives :: "status_reply \<Rightarrow> poller \<times> page \<Rightarrow> poller \<times> page" where
  "status_arrives reply = (\<lambda>(pl, p).
     if status_inflight pl = 0 then (pl, p)
     else
       let pl0 = pl\<lparr>status_inflight := status_inflight pl - 1\<rparr>
       in case reply of
            StatusFailed message \<Rightarrow> poll_catch message (pl0, p)
          | StatusData ready_for_search model_status \<Rightarrow>
              if ready_for_search
              then
                let p1 = (case loadingNotificationId p of
                            None \<Rightarrow> p
                          | Some i \<Rightarrow> p\<lparr>page_timeouts := page_timeouts p @ [RemoveLoading i]\<rparr>);
                    p2 = show_loading p1
                in ((clear_poll_timer pl0)\<lparr>retry_inflight := Suc (retry_inflight pl0)\<rparr>,
                    p2\<lparr>requests := requests p2 @ [POST (pl_endpoint pl) (pl_search_data pl)]\<rparr>)
              else
                let p1 = update_model_loading_message
                           (progress_message model_status (attempts pl)) p
                in if attempts pl \<ge> max_attempts
                   then
                     let p2 = (case loadingNotificationId p1 of
                                 None \<Rightarrow> p1
                               | Some i \<Rightarrow> p1\<lparr>page_timeouts :=
                                               page_timeouts p1 @ [RemoveLoadingThenError i]\<rparr>)
                     in poll_catch ''Model loading timeout - please try again later''
                          (clear_poll_timer pl0, p2)
                   else (pl0, p1))"

definition found_message :: "search_data \<Rightarrow> body_data \<Rightarrow> string" where
  "found_message search_result search_data =
     ''Found '' @ (case sd_total search_result of None \<Rightarrow> ''undefined'' | Some t \<Rightarrow> show_int t)
       @ '' results for '' @ [CHR 0x22] @ bd_query search_data @ [CHR 0x22]"

definition retry_arrives :: "search_reply \<Rightarrow> poller \<times> page \<Rightarrow> poller \<times> page" where
  "retry_arrives reply = (\<lambda>(pl, p).
     if retry_inflight pl = 0 then (pl, p)
     else
       let pl0 = pl\<lparr>retry_inflight := retry_inflight pl - 1\<rparr>
       in case reply of
            SearchFailed message \<Rightarrow> poll_catch message (pl0, p)
          | SearchReplied st search_result \<Rightarrow>
              if ok_status st
              then
                let p1 = display_results search_result p;
                    p2 = p1\<lparr>notifs := snd (showSuccess ''Search Complete''
                                (found_message search_result (pl_search_data pl))
                                no_options (notifs p1))\<rparr>
                in (pl0, hide_loading p2)
              else poll_catch (http_error search_result st) (pl0, p))"

definition fire_page_timeout :: "nat \<Rightarrow> page \<Rightarrow> page" where
  "fire_page_timeout k p =
     (if k < length (page_timeouts p)
      then
        let p0 = p\<lparr>page_timeouts := take k (page_timeouts p) @ drop (Suc k) (page_timeouts p)\<rparr>
        in case page_timeouts p ! k of
             RemoveLoading i \<Rightarrow>
               p0\<lparr>notifs := remove_notification i (notifs p0), loadingNotificationId := None\<rparr>
           | RemoveLoadingThenError i \<Rightarrow>
               p0\<lparr>notifs := snd (showError ''Model Loading Timeout''
                                   ''Model loading timeout - please try again later'' no_options
                                   (remove_notification i (notifs p0))),
                   loadingNotificationId := None\<rparr>
      else p)"

text \<open>
  One polling cycle: the timer fires and the reply to that status request arrives before the
  timer fires again. \<open>cycles\<close> runs one cycle per reply of the list.
\<close>

definition cycle :: "status_reply \<Rightarrow> poller \<times> page \<Rightarrow> poller \<times> page" where
  "cycle reply c = status_arrives reply (tick_fire c)"

fun cycles :: "status_reply list \<Rightarrow> poller \<times> page \<Rightarrow> poller \<times> page" where
  "cycles [] c = c"
| "cycles (reply # replies) c = cycles replies (cycle reply c)"

text \<open>
  The poller under any schedule: its timer fires, a status reply arrives, the reply to a
  retried search arrives, in any order.
\<close>

datatype poll_event = Fire | StatusReply status_reply | RetryReply search_reply

fun poll_step :: "poll_event \<Rightarrow> poller \<times> page \<Rightarrow> poller \<times> page" where
  "poll_step Fire c = tick_fire c"
| "poll_step (StatusReply reply) c = status_arrives reply c"
| "poll_step (RetryReply reply) c = retry_arrives reply c"

fun poll_run :: "poll_event list \<Rightarrow> poller \<times> page \<Rightarrow> poller \<times> page" where
  "poll_run [] c = c"
| "poll_run (e # es) c = poll_run es (poll_step e c)"

fun is_search_request :: "request \<Rightarrow> bool" where
  "is_search_request (POST url b) = True"
| "is_search_request (GET url) = False"

text \<open>
  A search dispatched from page \<open>p\<close> and answered with status 202 and body \<open>data\<close>: the
  poller it starts and the page it leaves, when it starts one.
\<close>

definition gated_dispatch :: "page \<Rightarrow> search_data \<Rightarrow> (poller \<times> page) option" where
  "gated_dispatch p data =
     (case perform_search p of
        (None, _) \<Rightarrow> None
      | (Some (endpoint, body_data), pa) \<Rightarrow>
          (case perform_search_reply endpoint body_data (SearchReplied 202 data) pa of
             (None, _) \<Rightarrow> None
           | (Some pl, p0) \<Rightarrow> Some (pl, p0)))"

definition not_ready :: "status_reply \<Rightarrow> bool" where
  "not_ready reply = (case reply of StatusFailed _ \<Rightarrow> False | StatusData ready _ \<Rightarrow> \<not> ready)"

definition never_ready :: "poll_event \<Rightarrow> bool" where
  "never_ready e = (case e of StatusReply reply \<Rightarrow> not_ready reply | _ \<Rightarrow> True)"

definition status_request :: request where
  "status_request = GET ''/api/search/status''"

text \<open>The page as \<open>initialize_search\<close> leaves it, with a query typed in.\<close>

definition page_with_query :: "string \<Rightarrow> page" where
  "page_with_query q =
     \<lparr>search_input_value = q, max_results_select = 10, is_hybrid_search = False,
      hybrid_function_select = 1, welcome_display = Some ''block'', loading_display = ''none'',
      no_results_display = ''none'', results_list_display = ''none'', results_list_items = [],
      model_loading_indicator = None, button_disabled = False, button_text = ''Search'',
      button_loading = False, loadingNotificationId = None, notifs = notif_init,
      page_timeouts = [], requests = [], shown = []\<rparr>"

definition dogs :: body_data where
  "dogs = \<lparr>bd_query = ''dogs'', bd_max_results = 10, bd_hybrid_function = None\<rparr>"

definition loading_202 :: search_data where
  "loading_202 =
     \<lparr>sd_status = Some ''model_loading'', sd_message = Some ''Model is now loading'',
      sd_error = None, sd_results = None, sd_total = None, sd_warning = None\<rparr>"

definition three_results :: search_data where
  "three_results =
     \<lparr>sd_status = None, sd_message = None, sd_error = None,
      sd_results = Some [''a'', ''b'', ''c''], sd_total = Some 3, sd_warning = None\<rparr>"

text \<open>The search for dogs, answered 202: the poller it starts and the page it leaves.\<close>

definition dogs_dispatch :: "poller \<times> page" where
  "dogs_dispatch =
     (poll_for_model_ready_and_search dogs ''/search'',
      snd (perform_search_reply ''/search'' dogs (SearchReplied 202 loading_202)
             (snd (perform_search (page_with_query ''dogs'')))))"

definition timeout_message :: string where
  "timeout_message = ''Search failed: Model loading timeout - please try again later''"

text \<open>
  The listener for \<open>input\<close> events on the search box: the user has edited the text to \<open>v\<close>.
\<close>

definition show_welcome_section :: "page \<Rightarrow> page" where
  "show_welcome_section p = p\<lparr>welcome_display := map_option (\<lambda>_. ''block'') (welcome_display p)\<rparr>"

definition clear_results :: "page \<Rightarrow> page" where
  "clear_results p =
     show_welcome_section
       ((hide_all_result_elements p)\<lparr>results_list_items := [], search_input_value := []\<rparr>)"

definition input_event :: "string \<Rightarrow> page \<Rightarrow> page" where
  "input_event v p =
     (let p1 = p\<lparr>search_input_value := v\<rparr>
      in if trim v = [] then clear_results p1 else p1)"

text \<open>
  The user searches for dogs, empties the search box while the request is in flight, and
  then the reply arrives with three results.
\<close>

definition late_results_page :: page where
  "late_results_page =
     snd (perform_search_reply ''/search'' dogs (SearchReplied 200 three_results)
            (input_event [] (snd (perform_search (page_with_query ''dogs'')))))"

section \<open>The React hook \<open>useSearch\<close>\<close>

text \<open>
  The state of the hook, the query string of the location as \<open>URLSearchParams\<close>, the
  intervals started by \<open>startStatusPolling\<close>, the requests sent and the calls of the
  caller's \<open>onError\<close>. \<open>performSearch\<close> is the callback up to its first \<open>await\<close>.
\<close>

record search_config =
  apiBaseUrl :: string
  defaultMaxResults :: int

record use_search =
  isLoading :: bool
  loadingMessage :: string
  results :: "string list"
  currentQuery :: string
  isHybridSearch :: bool
  maxResults :: int
  hybridFunction :: int
  urlParams :: "(string \<times> string) list"
  statusPollIntervals :: nat
  fetches :: "request list"
  onError_calls :: "string list"

definition updateUrlParams ::
  "search_config \<Rightarrow> string \<Rightarrow> int \<Rightarrow> bool \<Rightarrow> int \<Rightarrow> (string \<times> string) list
     \<Rightarrow> (string \<times> string) list" where
  "updateUrlParams cfg query maxR hybrid func ps =
     (let ps1 = (if trim query \<noteq> [] then AList.update ''q'' (trim query) ps
                 else AList.delete ''q'' ps);
          ps2 = (if maxR \<noteq> defaultMaxResults cfg then AList.update ''max'' (show_int maxR) ps1
                 else AList.delete ''max'' ps1);
          ps3 = (if hybrid then AList.update ''mode'' ''hybrid'' ps2
                 else AList.delete ''mode'' ps2)
      in if func \<noteq> 1 then AList.update ''func'' (show_int func) ps3
         else AList.delete ''func'' ps3)"

definition performSearch :: "search_config \<Rightarrow> string \<Rightarrow> use_search \<Rightarrow> use_search" where
  "performSearch cfg query h =
     (if trim query = [] then h\<lparr>onError_calls := onError_calls h @ [''Please enter a search query'']\<rparr>
      else
        let h1 = h\<lparr>currentQuery := trim query,
                   urlParams := updateUrlParams cfg (trim query) (maxResults h)
                                  (isHybridSearch h) (hybridFunction h) (urlParams h),
                   isLoading := True,
                   loadingMessage := ''Searching...'',
                   statusPollIntervals := Suc (statusPollIntervals h)\<rparr>;
            endpoint = apiBaseUrl cfg
                         @ (if isHybridSearch h then ''/search_complex'' else ''/search'');
            bodyData = \<lparr>bd_query = trim query, bd_max_results = maxResults h,
                        bd_hybrid_function =
                          (if isHybridSearch h then Some (hybridFunction h) else None)\<rparr>
        in h1\<lparr>fetches := fetches h1 @ [POST endpoint bodyData]\<rparr>)"

definition hook_with_results :: use_search where
  "hook_with_results =
     \<lparr>isLoading = False, loadingMessage = [], results = [''a'', ''b'', ''c''],
      currentQuery = ''dogs'', isHybridSearch = False, maxResults = 8, hybridFunction = 1,
      urlParams = [(''q'', ''dogs'')], statusPollIntervals = 0, fetches = [],
      onError_calls = []\<rparr>"

section \<open>The debug panel and its embedding-progress pollers\<close>

subsection \<open>State\<close>

text \<open>
  A progress snapshot as the panel reads it: whether it has an \<open>error\<close> member, \<open>active\<close>,
  and \<open>stage\<close> and \<open>percentage\<close>, which with the item counts only feed the four text nodes
  of the progress bar. Those text nodes, which the page has, are kept as the snapshot they
  were written from.
\<close>

record progress =
  pr_error :: bool
  pr_active :: bool
  pr_stage :: string
  pr_percentage :: int

datatype progress_view = Unset | Rendered_from progress | ReadyText

text \<open>
  What \<open>await fetch("/api/embeddings/progress")\<close> and \<open>await response.json()\<close> give: one of
  them throws, the response is not ok, or the body is \<open>null\<close> or a snapshot. For
  \<open>POST /api/embeddings/generate\<close> likewise, with the result object.
\<close>

datatype progress_reply = Throws string | NotOk | JsonNull | Snapshot progress

record gen_result =
  gr_success :: bool
  gr_processed :: int
  gr_skipped :: int
  gr_errors :: int
  gr_error :: string

datatype generate_reply = GenThrows string | GenNotOk | GenResult gen_result

datatype interval_kind = Fast | Background

text \<open>An \<open>async\<close> function suspended at its fetch, by the function it belongs to.\<close>

datatype pending = FastTick | BackgroundTick | CheckOpen | Generate

datatype panel_timeout =
    PanelClosed                \<comment> \<open>300 ms after \<open>hide_debug_panel\<close>\<close>
  | IdleReset                  \<comment> \<open>5000 ms after the fast poller saw the job finished\<close>
  | IdleResetUnlessCompleted   \<comment> \<open>3000 ms after \<open>trigger_embedding_generation\<close> ended\<close>

datatype ui_event = Rendered progress | ContainerSet string

text \<open>
  The module variables \<open>is_debug_open\<close>, \<open>global_progress_interval\<close> and
  \<open>background_progress_check\<close>; the window's table of running \<open>setInterval\<close> timers with
  the next id it hands out (ids are positive, hence truthy); the suspended \<open>async\<close>
  functions; the pending \<open>setTimeout\<close> callbacks; the Generate button, the class of the
  progress container and the progress texts; the toasts; the URLs fetched; and the writes
  to the progress container and texts, in order. The statistics and system-information
  timers of the panel touch none of this and are left out.
\<close>

record panel =
  is_debug_open :: bool
  global_progress_interval :: "nat option"
  background_progress_check :: "nat option"
  intervals :: "(nat \<times> interval_kind) list"
  next_interval :: nat
  pending :: "pending list"
  panel_timeouts :: "panel_timeout list"
  gen_button_disabled :: bool
  gen_button_text :: string
  container_class :: string
  progress_view :: progress_view
  panel_notifs :: notif_state
  panel_requests :: "string list"
  ui_log :: "ui_event list"

definition container_idle :: string where
  "container_idle = ''embedding-progress-container idle''"

definition container_active :: string where
  "container_active = ''embedding-progress-container active''"

definition container_completed :: string where
  "container_completed = ''embedding-progress-container completed''"

definition panel_init :: panel where
  "panel_init =
     \<lparr>is_debug_open = False, global_progress_interval = None,
      background_progress_check = None, intervals = [], next_interval = 1, pending = [],
      panel_timeouts = [], gen_button_disabled = False,
      gen_button_text = ''Generate Embeddings'', container_class = container_idle,
      progress_view = Unset, panel_notifs = notif_init, panel_requests = [], ui_log = []\<rparr>"

subsection \<open>Timers and the progress display\<close>

definition set_interval :: "interval_kind \<Rightarrow> panel \<Rightarrow> nat \<times> panel" where
  "set_interval kind s =
     (next_interval s,
      s\<lparr>intervals := intervals s @ [(next_interval s, kind)],
        next_interval := Suc (next_interval s)\<rparr>)"

definition clear_interval :: "nat \<Rightarrow> panel \<Rightarrow> panel" where
  "clear_interval i s = s\<lparr>intervals := AList.delete i (intervals s)\<rparr>"

definition set_container :: "string \<Rightarrow> panel \<Rightarrow> panel" where
  "set_container cls s = s\<lparr>container_class := cls, ui_log := ui_log s @ [ContainerSet cls]\<rparr>"

definition update_progress_display :: "progress \<Rightarrow> panel \<Rightarrow> panel" where
  "update_progress_display pr s =
     s\<lparr>progress_view := Rendered_from pr, ui_log := ui_log s @ [Rendered pr]\<rparr>"

definition fetch_progress :: "pending \<Rightarrow> panel \<Rightarrow> panel" where
  "fetch_progress k s =
     s\<lparr>panel_requests := panel_requests s @ [''/api/embeddings/progress''],
       pending := pending s @ [k]\<rparr>"

definition stop_progress_polling :: "panel \<Rightarrow> panel" where
  "stop_progress_polling s =
     (case global_progress_interval s of
        None \<Rightarrow> s
      | Some i \<Rightarrow> (clear_interval i s)\<lparr>global_progress_interval := None\<rparr>)"

definition stop_background_progress_monitoring :: "panel \<Rightarrow> panel" where
  "stop_background_progress_monitoring s =
     (case background_progress_check s of
        None \<Rightarrow> s
      | Some i \<Rightarrow> (clear_interval i s)\<lparr>background_progress_check := None\<rparr>)"

definition start_progress_polling :: "panel \<Rightarrow> panel" where
  "start_progress_polling s =
     (let (i, s1) = set_interval Fast (stop_progress_polling s)
      in s1\<lparr>global_progress_interval := Some i\<rparr>)"

definition start_background_progress_monitoring :: "panel \<Rightarrow> panel" where
  "start_background_progress_monitoring s =
     (let (i, s1) = set_interval Background (stop_background_progress_monitoring s)
      in s1\<lparr>background_progress_check := Some i\<rparr>)"

subsection \<open>The callbacks\<close>

text \<open>The callback of the fast poller, before and after its \<open>await\<close>.\<close>

definition fast_tick :: "panel \<Rightarrow> panel" where
  "fast_tick s = fetch_progress FastTick s"

definition fast_tick_reply :: "progress_reply \<Rightarrow> panel \<Rightarrow> panel" where
  "fast_tick_reply reply s =
     (case reply of
        Throws message \<Rightarrow> s
      | NotOk \<Rightarrow> stop_progress_polling s
      | JsonNull \<Rightarrow> s
      | Snapshot pr \<Rightarrow>
          if pr_error pr then s
          else
            let s1 = update_progress_display pr s
            in if \<not> pr_active pr
               then
                 let s2 = (stop_progress_polling s1)
                            \<lparr>gen_button_disabled := False,
                             gen_button_text := ''Generate Embeddings''\<rparr>;
                     s3 = set_container container_completed s2
                 in s3\<lparr>panel_timeouts := panel_timeouts s3 @ [IdleReset]\<rparr>
               else s1)"

text \<open>\<open>check_embedding_progress_on_open\<close>, before and after its \<open>await\<close>.\<close>

definition check_embedding_progress_on_open :: "panel \<Rightarrow> panel" where
  "check_embedding_progress_on_open s = fetch_progress CheckOpen s"

definition check_embedding_progress_reply :: "progress_reply \<Rightarrow> panel \<Rightarrow> panel" where
  "check_embedding_progress_reply reply s =
     (case reply of
        Throws message \<Rightarrow> s
      | NotOk \<Rightarrow> s
      | JsonNull \<Rightarrow> s
      | Snapshot pr \<Rightarrow>
          if \<not> pr_error pr \<and> pr_active pr
          then
            let s1 = s\<lparr>gen_button_disabled := True, gen_button_text := ''Generating...''\<rparr>;
                s2 = set_container container_active s1;
                s3 = update_progress_display pr s2
            in start_progress_polling s3
          else s)"

text \<open>The callback of the background check, before and after its \<open>await\<close>.\<close>

definition background_tick :: "panel \<Rightarrow> panel" where
  "background_tick s =
     (if global_progress_interval s \<noteq> None then s else fetch_progress BackgroundTick s)"

definition background_tick_reply :: "progress_reply \<Rightarrow> panel \<Rightarrow> panel" where
  "background_tick_reply reply s =
     (case reply of
        Throws message \<Rightarrow> s
      | NotOk \<Rightarrow> stop_background_progress_monitoring s
      | JsonNull \<Rightarrow> s
      | Snapshot pr \<Rightarrow>
          if \<not> pr_error pr \<and> pr_active pr then check_embedding_progress_on_open s else s)"

text \<open>\<open>trigger_embedding_generation\<close>, before and after its \<open>await\<close>.\<close>

definition trigger_embedding_generation :: "panel \<Rightarrow> panel" where
  "trigger_embedding_generation s =
     (let s1 = s\<lparr>gen_button_disabled := True, gen_button_text := ''Generating...''\<rparr>;
          s2 = start_progress_polling (set_container container_active s1)
      in s2\<lparr>panel_requests := panel_requests s2 @ [''/api/embeddings/generate''],
            pending := pending s2 @ [Generate]\<rparr>)"

definition generation_finally :: "panel \<Rightarrow> panel" where
  "generation_finally s =
     s\<lparr>gen_button_disabled := False,
       gen_button_text := ''Generate Embeddings'',
       panel_timeouts := panel_timeouts s @ [IdleResetUnlessCompleted]\<rparr>"

definition panel_toast ::
  "(string \<Rightarrow> string \<Rightarrow> notif_options \<Rightarrow> notif_state \<Rightarrow> nat \<times> notif_state)
     \<Rightarrow> string \<Rightarrow> string \<Rightarrow> panel \<Rightarrow> panel" where
  "panel_toast toast title message s =
     s\<lparr>panel_notifs := snd (toast title message no_options (panel_notifs s))\<rparr>"

definition trigger_embedding_generation_reply :: "generate_reply \<Rightarrow> panel \<Rightarrow> panel" where
  "trigger_embedding_generation_reply reply s =
     generation_finally
       (case reply of
          GenThrows message \<Rightarrow>
            set_container container_idle
              (stop_progress_polling
                 (panel_toast showError ''Embedding Generation Error''
                    (''Failed to generate embeddings: '' @ message) s))
        | GenNotOk \<Rightarrow>
            panel_toast showError ''Generation Failed'' ''Unable to start embedding generation''
              (stop_progress_polling s)
        | GenResult result \<Rightarrow>
            let s1 = stop_progress_polling s
            in if gr_success result
               then update_progress_display
                      \<lparr>pr_error = False, pr_active = False, pr_stage = ''Completed'',
                       pr_percentage = 100\<rparr>
                      (panel_toast showSuccess ''Embedding Generation Complete''
                         (''Processed: '' @ show_int (gr_processed result)
                            @ '', Skipped: '' @ show_int (gr_skipped result)
                            @ '', Errors: '' @ show_int (gr_errors result)) s1)
               else set_container container_idle
                      (panel_toast showError ''Embedding Generation Failed'' (gr_error result) s1))"

definition show_debug_panel :: "panel \<Rightarrow> panel" where
  "show_debug_panel s =
     (if is_debug_open s then s
      else check_embedding_progress_on_open
             (start_background_progress_monitoring (s\<lparr>is_debug_open := True\<rparr>)))"

definition hide_debug_panel :: "panel \<Rightarrow> panel" where
  "hide_debug_panel s =
     (if \<not> is_debug_open s then s
      else
        let s1 = stop_background_progress_monitoring (stop_progress_polling s)
        in s1\<lparr>panel_timeouts := panel_timeouts s1 @ [PanelClosed]\<rparr>)"

definition idle_reset :: "panel \<Rightarrow> panel" where
  "idle_reset s = (set_container container_idle s)\<lparr>progress_view := ReadyText\<rparr>"

fun run_panel_timeout :: "panel_timeout \<Rightarrow> panel \<Rightarrow> panel" where
  "run_panel_timeout PanelClosed s = s\<lparr>is_debug_open := False\<rparr>"
| "run_panel_timeout IdleReset s = idle_reset s"
| "run_panel_timeout IdleResetUnlessCompleted s =
     (if container_class s \<noteq> container_completed then idle_reset s else s)"

subsection \<open>The event loop\<close>

text \<open>
  The page is driven by events, one at a time: the user opens or closes the panel or clicks
  Generate, a running interval timer fires, the reply for a suspended function arrives, a
  pending timeout fires. An event that cannot happen (a cleared timer, no such suspended
  function, a reply of the wrong endpoint) leaves the state as it is.
\<close>

datatype panel_event =
    ShowPanel
  | HidePanel
  | ClickGenerate
  | IntervalFires nat
  | Arrives nat progress_reply
  | GenerateArrives nat generate_reply
  | TimeoutFires nat

definition without :: "nat \<Rightarrow> 'a list \<Rightarrow> 'a list" where
  "without k xs = take k xs @ drop (Suc k) xs"

fun step :: "panel_event \<Rightarrow> panel \<Rightarrow> panel" where
  "step ShowPanel s = show_debug_panel s"
| "step HidePanel s = hide_debug_panel s"
| "step ClickGenerate s = trigger_embedding_generation s"
| "step (IntervalFires i) s =
     (case map_of (intervals s) i of
        None \<Rightarrow> s
      | Some Fast \<Rightarrow> fast_tick s
      | Some Background \<Rightarrow> background_tick s)"
| "step (Arrives k reply) s =
     (if k < length (pending s)
      then (case pending s ! k of
              FastTick \<Rightarrow> fast_tick_reply reply (s\<lparr>pending := without k (pending s)\<rparr>)
            | BackgroundTick \<Rightarrow>
                background_tick_reply reply (s\<lparr>pending := without k (pending s)\<rparr>)
            | CheckOpen \<Rightarrow>
                check_embedding_progress_reply reply (s\<lparr>pending := without k (pending s)\<rparr>)
            | Generate \<Rightarrow> s)
      else s)"
| "step (GenerateArrives k reply) s =
     (if k < length (pending s) \<and> pending s ! k = Generate
      then trigger_embedding_generation_reply reply (s\<lparr>pending := without k (pending s)\<rparr>)
      else s)"
| "step (TimeoutFires k) s =
     (if k < length (panel_timeouts s)
      then run_panel_timeout (panel_timeouts s ! k)
             (s\<lparr>panel_timeouts := without k (panel_timeouts s)\<rparr>)
      else s)"

fun run :: "panel_event list \<Rightarrow> panel \<Rightarrow> panel" where
  "run [] s = s"
| "run (e # es) s = run es (step e s)"

text \<open>The ids of the running timers of one kind.\<close>

definition timers_of :: "interval_kind \<Rightarrow> panel \<Rightarrow> nat list" where
  "timers_of kind s = map fst (filter (\<lambda>(i, k). k = kind) (intervals s))"

definition option_list :: "'a option \<Rightarrow> 'a list" where
  "option_list x = (case x of None \<Rightarrow> [] | Some a \<Rightarrow> [a])"

text \<open>
  The running timers are exactly those the two module variables hold, and the ids in use
  are distinct and below the next id.
\<close>

definition panel_inv :: "panel \<Rightarrow> bool" where
  "panel_inv s \<longleftrightarrow>
     timers_of Fast s = option_list (global_progress_interval s) \<and>
     timers_of Background s = option_list (background_progress_check s) \<and>
     distinct (map fst (intervals s)) \<and>
     list_all (\<lambda>i. i < next_interval s) (map fst (intervals s))"

text \<open>
  One cycle of the fast poller: its timer fires and the reply to that request arrives
  before anything else happens.
\<close>

definition progress_cycle :: "progress_reply \<Rightarrow> panel \<Rightarrow> panel" where
  "progress_cycle reply s =
     (case global_progress_interval s of
        None \<Rightarrow> s
      | Some i \<Rightarrow> step (Arrives (length (pending s)) reply) (step (IntervalFires i) s))"

fun progress_cycles :: "progress_reply list \<Rightarrow> panel \<Rightarrow> panel" where
  "progress_cycles [] s = s"
| "progress_cycles (reply # replies) s = progress_cycles replies (progress_cycle reply s)"

definition progress_url :: string where
  "progress_url = ''/api/embeddings/progress''"

text \<open>A snapshot of a job half way, running or not, and the reply that carries it.\<close>

definition half_way :: "bool \<Rightarrow> progress" where
  "half_way a =
     \<lparr>pr_error = False, pr_active = a, pr_stage = ''Processing'', pr_percentage = 50\<rparr>"

definition running :: "bool \<Rightarrow> progress_reply" where
  "running a = Snapshot (half_way a)"

text \<open>
  The panel is opened and finds no job; the background check fires; the user clicks
  Generate, which starts fast poller 2; the background check gets its reply, a running job,
  and asks again through \<open>check_embedding_progress_on_open\<close>.
\<close>

definition race_prefix :: "panel_event list" where
  "race_prefix =
     [ShowPanel, Arrives 0 (running False), IntervalFires 1, ClickGenerate,
      Arrives 0 (running True)]"

text \<open>
  The panel is opened and finds no job; the user clicks Generate, which starts fast poller
  2; poller 2 fires and its request is in flight; the generation request fails, which stops
  poller 2; the user clicks Generate again, which starts fast poller 3.
\<close>

definition stale_prefix :: "panel_event list" where
  "stale_prefix =
     [ShowPanel, Arrives 0 (running False), ClickGenerate, IntervalFires 2,
      GenerateArrives 0 GenNotOk, ClickGenerate]"

text \<open>The part of the state that the timers live in.\<close>

definition timer_state ::
  "panel \<Rightarrow> (nat \<times> interval_kind) list \<times> nat \<times> nat option \<times> nat option" where
  "timer_state s =
     (intervals s, next_interval s, global_progress_interval s, background_progress_check s)"

section \<open>Properties of the notification lists\<close>

lemma length_AList_update_fresh:
  "k \<notin> fst ` set al \<Longrightarrow> length (AList.update k v al) = Suc (length al)"
  by (induction al) auto

lemma length_AList_update_le: "length (AList.update k v al) \<le> Suc (length al)"
  by (induction al) auto

lemma length_delete_present:
  "distinct (map fst al) \<Longrightarrow> k \<in> fst ` set al \<Longrightarrow> Suc (length (AList.delete k al)) = length al"
proof (induction al)
  case Nil
  then show ?case by simp
next
  case (Cons p ps)
  show ?case
  proof (cases "fst p = k")
    case True
    with Cons.prems have "k \<notin> fst ` set ps" by auto
    then have "AList.delete k ps = ps" by simp
    with True show ?thesis by (cases p) simp
  next
    case False
    with Cons show ?thesis by (cases p) auto
  qed
qed

lemma addNotification_length:
  "1 \<le> m \<Longrightarrow> int (length (addNotification m n prev)) \<le> m"
  by (auto simp: addNotification_def js_slice_def Let_def)

lemma addNotification_last:
  "1 \<le> m \<Longrightarrow> addNotification m n prev \<noteq> [] \<and> last (addNotification m n prev) = n"
  by (auto simp: addNotification_def js_slice_def Let_def)

lemma addNotification_full:
  "1 \<le> m \<Longrightarrow> int (length prev) = m \<Longrightarrow> addNotification m n prev = tl prev @ [n]"
  by (cases prev) (auto simp: addNotification_def js_slice_def Let_def)


lemma show_notification_fst: "fst (show_notification ty t msg opts s) = notification_id s"
  by (simp add: show_notification_def Let_def)

lemma remove_notification_list: "notification_list (remove_notification k s) = notification_list s"
  by (simp add: remove_notification_def split: option.splits)

lemma show_notification_list:
  "notification_list (snd (show_notification ty t msg opts s)) =
     AList.update (notification_id s) \<lparr>n_type = ty, n_title = t, n_message = msg\<rparr>
       (notification_list s)"
  by (simp add: show_notification_def Let_def remove_notification_list split: list.splits)

lemma show_notification_schedules:
  assumes "max_notifications \<le> length (notification_list s)"
  shows "DeleteEntry (fst (hd (notification_list s)))
           \<in> set (timeouts (snd (show_notification ty t msg opts s)))"
proof -
  from assms obtain k n rest where l: "notification_list s = (k, n) # rest"
    by (cases "notification_list s") (auto simp: max_notifications_def)
  then show ?thesis using assms
    by (simp add: show_notification_def Let_def remove_notification_def)
qed

lemma notif_wf_fresh: "notif_wf s \<Longrightarrow> notification_id s \<notin> fst ` set (notification_list s)"
  by (auto simp: notif_wf_def list_all_iff)

lemma show_notification_after_removal:
  assumes wf: "notif_wf s" and cap: "length (notification_list s) = max_notifications"
  shows "length (notification_list (run_timeout (DeleteEntry (fst (hd (notification_list s))))
            (snd (show_notification ty t msg opts s)))) = max_notifications"
proof -
  let ?i = "notification_id s" and ?l = "notification_list s"
  let ?n = "\<lparr>n_type = ty, n_title = t, n_message = msg\<rparr>"
  from cap obtain k n rest where l: "?l = (k, n) # rest"
    by (cases ?l) (auto simp: max_notifications_def)
  have fresh: "?i \<notin> fst ` set ?l" using wf by (rule notif_wf_fresh)
  have d: "distinct (map fst (AList.update ?i ?n ?l))"
    using wf by (simp add: notif_wf_def distinct_update)
  have "k \<in> fst ` set (AList.update ?i ?n ?l)"
    using l by (simp add: dom_update)
  from length_delete_present [OF d this]
  have "Suc (length (AList.delete k (AList.update ?i ?n ?l))) = Suc (length ?l)"
    using fresh by (simp add: length_AList_update_fresh)
  then show ?thesis using l cap by (simp add: show_notification_list)
qed

lemma show_notification_kept_after_removal:
  assumes wf: "notif_wf s" and ne: "notification_list s \<noteq> []"
  shows "map_of (notification_list (run_timeout (DeleteEntry (fst (hd (notification_list s))))
            (snd (show_notification ty t msg opts s)))) (notification_id s)
         = Some \<lparr>n_type = ty, n_title = t, n_message = msg\<rparr>"
proof -
  have "notification_id s \<noteq> fst (hd (notification_list s))"
    using notif_wf_fresh [OF wf] ne by (cases "notification_list s") auto
  then show ?thesis
    by (simp add: show_notification_list update_conv')
qed

lemma run_timeout_keys:
  "fst ` set (notification_list (run_timeout t s)) \<subseteq> fst ` set (notification_list s) \<and>
   (distinct (map fst (notification_list s))
      \<longrightarrow> distinct (map fst (notification_list (run_timeout t s))))"
proof (cases t)
  case (AutoRemove i)
  then show ?thesis by (simp add: remove_notification_list)
next
  case (DeleteEntry i)
  then show ?thesis
    using dom_delete_subset [of i "notification_list s"]
    by (simp add: distinct_delete)
qed

lemma fire_timeout_keys:
  "fst ` set (notification_list (fire_timeout k s)) \<subseteq> fst ` set (notification_list s) \<and>
   (distinct (map fst (notification_list s))
      \<longrightarrow> distinct (map fst (notification_list (fire_timeout k s))))"
proof (cases "k < length (timeouts s)")
  case True
  let ?s = "s\<lparr>timeouts := take k (timeouts s) @ drop (Suc k) (timeouts s)\<rparr>"
  from run_timeout_keys [of "timeouts s ! k" ?s] True show ?thesis
    by (simp add: fire_timeout_def)
next
  case False
  then show ?thesis by (simp add: fire_timeout_def)
qed

lemma fire_timeouts_keys:
  "fst ` set (notification_list (fire_timeouts ks s)) \<subseteq> fst ` set (notification_list s) \<and>
   (distinct (map fst (notification_list s))
      \<longrightarrow> distinct (map fst (notification_list (fire_timeouts ks s))))"
proof (induction ks arbitrary: s)
  case Nil
  then show ?case by simp
next
  case (Cons k ks)
  from Cons.IH [of "fire_timeout k s"] fire_timeout_keys [of k s] show ?case
    by auto
qed

lemma shorter_without_key:
  assumes d: "distinct (map fst l)" and d': "distinct (map fst l')"
    and sub: "fst ` set l' \<subseteq> fst ` set l" and gone: "k \<notin> fst ` set l'"
    and there: "k \<in> fst ` set l"
  shows "length l' < length l"
proof -
  have "fst ` set l' \<subseteq> fst ` set l - {k}" using sub gone by auto
  then have "card (fst ` set l') \<le> card (fst ` set l - {k})"
    by (intro card_mono) simp_all
  also have "\<dots> < card (fst ` set l)"
    using there by (intro card_Diff1_less) simp_all
  finally have "card (set (map fst l')) < card (set (map fst l))" by simp
  then show ?thesis
    using distinct_card [OF d] distinct_card [OF d'] by simp
qed

lemma show_notification_after_timers:
  assumes wf: "notif_wf s" and cap: "length (notification_list s) = max_notifications"
    and gone: "fst (hd (notification_list s))
       \<notin> fst ` set (notification_list (fire_timeouts ks (snd (show_notification ty t msg opts s))))"
  shows "length (notification_list (fire_timeouts ks (snd (show_notification ty t msg opts s))))
           \<le> max_notifications"
proof -
  let ?i = "notification_id s" and ?l = "notification_list s"
  let ?n = "\<lparr>n_type = ty, n_title = t, n_message = msg\<rparr>"
  let ?s' = "snd (show_notification ty t msg opts s)"
  from cap obtain k n rest where l: "?l = (k, n) # rest"
    by (cases ?l) (auto simp: max_notifications_def)
  have l': "notification_list ?s' = AList.update ?i ?n ?l"
    by (rule show_notification_list)
  have fresh: "?i \<notin> fst ` set ?l" using wf by (rule notif_wf_fresh)
  have d: "distinct (map fst (notification_list ?s'))"
    unfolding l' using wf by (simp add: notif_wf_def distinct_update)
  have there: "fst (hd ?l) \<in> fst ` set (notification_list ?s')"
    unfolding l' using l by (simp add: dom_update)
  note k = fire_timeouts_keys [of ks ?s']
  from k d have d': "distinct (map fst (notification_list (fire_timeouts ks ?s')))" by simp
  from k have sub: "fst ` set (notification_list (fire_timeouts ks ?s'))
      \<subseteq> fst ` set (notification_list ?s')" by simp
  from shorter_without_key [OF d d' sub gone there]
  have "length (notification_list (fire_timeouts ks ?s')) < length (AList.update ?i ?n ?l)"
    unfolding l' .
  also have "\<dots> = Suc (length ?l)" using fresh by (rule length_AList_update_fresh)
  finally show ?thesis using cap by simp
qed

text \<open>
  Claim C9, as amended. The React hook (with a capacity of at least one) keeps at most
  \<open>maxNotifications\<close> entries after every \<open>addNotification\<close>, keeps the new entry as the
  last one and drops the oldest one when the list was full. On the static page
  \<open>show_notification\<close> always stores the new entry; on a list that is full it only schedules
  the removal of the oldest entry, which leaves the list when that 300 ms timer fires.
  Provided no further notification is shown before then: whatever pending timers fire, once
  the oldest entry has left the list the list is back within \<open>max_notifications\<close>; and
  when that timer is the first to fire, the new entry is among them.
\<close>

theorem notifications_capacity:
  "(1 \<le> m \<longrightarrow>
      int (length (addNotification m n prev)) \<le> m \<and>
      last (addNotification m n prev) = n \<and>
      (int (length prev) = m \<longrightarrow> addNotification m n prev = tl prev @ [n])) \<and>
   (notif_wf s \<and> length (notification_list s) \<le> max_notifications \<longrightarrow>
      (let i = fst (show_notification ty t msg opts s);
           s' = snd (show_notification ty t msg opts s);
           oldest = DeleteEntry (fst (hd (notification_list s)))
       in map_of (notification_list s') i = Some \<lparr>n_type = ty, n_title = t, n_message = msg\<rparr> \<and>
          (if length (notification_list s) < max_notifications
           then length (notification_list s') \<le> max_notifications
           else oldest \<in> set (timeouts s') \<and>
                length (notification_list (run_timeout oldest s')) \<le> max_notifications \<and>
                map_of (notification_list (run_timeout oldest s')) i
                  = Some \<lparr>n_type = ty, n_title = t, n_message = msg\<rparr> \<and>
                (\<forall>ks. fst (hd (notification_list s))
                         \<notin> fst ` set (notification_list (fire_timeouts ks s')) \<longrightarrow>
                      length (notification_list (fire_timeouts ks s')) \<le> max_notifications))))"
proof (intro conjI impI)
  assume "1 \<le> m"
  then show "int (length (addNotification m n prev)) \<le> m"
    by (rule addNotification_length)
  from \<open>1 \<le> m\<close> show "last (addNotification m n prev) = n"
    by (simp add: addNotification_last)
  assume "int (length prev) = m"
  with \<open>1 \<le> m\<close> show "addNotification m n prev = tl prev @ [n]"
    by (rule addNotification_full)
next
  assume a: "notif_wf s \<and> length (notification_list s) \<le> max_notifications"
  let ?n = "\<lparr>n_type = ty, n_title = t, n_message = msg\<rparr>"
  have kept: "map_of (notification_list (snd (show_notification ty t msg opts s)))
                (notification_id s) = Some ?n"
    by (simp add: show_notification_list update_conv')
  show "let i = fst (show_notification ty t msg opts s);
           s' = snd (show_notification ty t msg opts s);
           oldest = DeleteEntry (fst (hd (notification_list s)))
       in map_of (notification_list s') i = Some \<lparr>n_type = ty, n_title = t, n_message = msg\<rparr> \<and>
          (if length (notification_list s) < max_notifications
           then length (notification_list s') \<le> max_notifications
           else oldest \<in> set (timeouts s') \<and>
                length (notification_list (run_timeout oldest s')) \<le> max_notifications \<and>
                map_of (notification_list (run_timeout oldest s')) i
                  = Some \<lparr>n_type = ty, n_title = t, n_message = msg\<rparr> \<and>
                (\<forall>ks. fst (hd (notification_list s))
                         \<notin> fst ` set (notification_list (fire_timeouts ks s')) \<longrightarrow>
                      length (notification_list (fire_timeouts ks s')) \<le> max_notifications))"
  proof (cases "length (notification_list s) < max_notifications")
    case True
    have "length (notification_list (snd (show_notification ty t msg opts s)))
            \<le> Suc (length (notification_list s))"
      by (simp add: show_notification_list length_AList_update_le)
    with True kept show ?thesis
      by (simp add: Let_def show_notification_fst)
  next
    case False
    with a have cap: "length (notification_list s) = max_notifications" by simp
    then have ne: "notification_list s \<noteq> []" by (auto simp: max_notifications_def)
    from a have wf: "notif_wf s" by simp
    have "max_notifications \<le> length (notification_list s)" using cap by simp
    note sch = show_notification_schedules [OF this, of ty t msg opts]
    note len = show_notification_after_removal [OF wf cap, of ty t msg opts]
    note kp = show_notification_kept_after_removal [OF wf ne, of ty t msg opts]
    have aft: "\<forall>ks. fst (hd (notification_list s))
                 \<notin> fst ` set (notification_list
                      (fire_timeouts ks (snd (show_notification ty t msg opts s)))) \<longrightarrow>
               length (notification_list
                      (fire_timeouts ks (snd (show_notification ty t msg opts s))))
                 \<le> max_notifications"
      using show_notification_after_timers [OF wf cap] by blast
    from False kept sch len kp aft show ?thesis
      by (simp add: Let_def show_notification_fst)
  qed
qed

theorem notifications_capacity_witness:
  "notif_wf (show_many 5 notif_init) \<and>
   length (notification_list (show_many 5 notif_init)) \<le> max_notifications \<and>
   int (length (addNotification 5 (6::nat) [1, 2, 3, 4, 5])) \<le> 5 \<and>
   addNotification 5 (6::nat) [1, 2, 3, 4, 5] = [2, 3, 4, 5, 6] \<and>
   DeleteEntry 1 \<in> set (timeouts (snd (show_notification ''error'' ''a'' ''b'' no_options
                                          (show_many 5 notif_init)))) \<and>
   length (notification_list (run_timeout (DeleteEntry 1)
      (snd (show_notification ''error'' ''a'' ''b'' no_options (show_many 5 notif_init)))))
     \<le> max_notifications \<and>
   1 \<notin> fst ` set (notification_list (fire_timeouts [1, 0]
      (snd (show_notification ''error'' ''a'' ''b'' no_options (show_many 5 notif_init))))) \<and>
   length (notification_list (fire_timeouts [1, 0]
      (snd (show_notification ''error'' ''a'' ''b'' no_options (show_many 5 notif_init)))))
     \<le> max_notifications"
proof -
  have s5: "show_many 5 notif_init =
     \<lparr>notification_list = map (\<lambda>k. (k, \<lparr>n_type = ''info'', n_title = ''t'', n_message = ''m''\<rparr>))
         [1, 2, 3, 4, 5], notification_id = 6, timeouts = []\<rparr>"
    by (simp add: numeral_eq_Suc show_notification_def notif_init_def max_notifications_def
        remove_notification_def Let_def)
  have wf: "notif_wf (show_many 5 notif_init)"
    unfolding s5 by (simp add: notif_wf_def)
  have le: "length (notification_list (show_many 5 notif_init)) \<le> max_notifications"
    unfolding s5 by (simp add: max_notifications_def)
  have hd: "fst (hd (notification_list (show_many 5 notif_init))) = 1"
    unfolding s5 by simp
  have full: "int (length [1, 2, 3, 4, 5::nat]) = 5" by simp
  have nl: "\<not> length (notification_list (show_many 5 notif_init)) < max_notifications"
    unfolding s5 by (simp add: max_notifications_def)
  have gone: "1 \<notin> fst ` set (notification_list (fire_timeouts [1, 0]
      (snd (show_notification ''error'' ''a'' ''b'' no_options (show_many 5 notif_init)))))"
    unfolding s5
    by (simp add: show_notification_def max_notifications_def remove_notification_def
        no_options_def default_duration_def fire_timeout_def Let_def)
  note T = notifications_capacity [of 5 "6::nat" "[1, 2, 3, 4, 5]" "show_many 5 notif_init"
      "''error''" "''a''" "''b''" no_options]
  from T wf le hd full nl have first:
    "int (length (addNotification 5 (6::nat) [1, 2, 3, 4, 5])) \<le> 5 \<and>
     addNotification 5 (6::nat) [1, 2, 3, 4, 5] = [2, 3, 4, 5, 6] \<and>
     DeleteEntry 1 \<in> set (timeouts (snd (show_notification ''error'' ''a'' ''b'' no_options
                                          (show_many 5 notif_init)))) \<and>
     length (notification_list (run_timeout (DeleteEntry 1)
        (snd (show_notification ''error'' ''a'' ''b'' no_options (show_many 5 notif_init)))))
       \<le> max_notifications"
    by (simp add: Let_def)
  from T wf le hd nl have
    "\<forall>ks. 1 \<notin> fst ` set (notification_list (fire_timeouts ks
        (snd (show_notification ''error'' ''a'' ''b'' no_options (show_many 5 notif_init))))) \<longrightarrow>
      length (notification_list (fire_timeouts ks
        (snd (show_notification ''error'' ''a'' ''b'' no_options (show_many 5 notif_init)))))
        \<le> max_notifications"
    by (simp add: Let_def)
  with gone have "length (notification_list (fire_timeouts [1, 0]
      (snd (show_notification ''error'' ''a'' ''b'' no_options (show_many 5 notif_init)))))
     \<le> max_notifications"
    by blast
  with first gone wf le show ?thesis by simp
qed

text \<open>
  Claim C9 fails as stated on the static page: right after the sixth toast the map holds six
  entries; after seven toasts shown in a row it holds seven, and once both pending removal
  timers (both for toast 1) have fired it still holds six, with nothing left to remove.
\<close>

theorem show_notification_bound_counterexample:
  "\<not> length (notification_list (show_many 6 notif_init)) \<le> max_notifications \<and>
   \<not> length (notification_list (show_many 7 notif_init)) \<le> max_notifications \<and>
   \<not> length (notification_list (fire_timeout 0 (fire_timeout 0 (show_many 7 notif_init))))
        \<le> max_notifications \<and>
   timeouts (fire_timeout 0 (fire_timeout 0 (show_many 7 notif_init))) = []"
  by (simp add: numeral_eq_Suc show_notification_def notif_init_def max_notifications_def
      remove_notification_def fire_timeout_def Let_def)

section \<open>Properties of the \<open>fetch\<close> wrapper\<close>

lemma show_notification_id:
  "notification_id (snd (show_notification ty t msg opts s)) = Suc (notification_id s)"
  by (simp add: show_notification_def Let_def remove_notification_def
      split: list.splits option.splits)

text \<open>
  Every toast takes a fresh id, so a toast was shown exactly when the id counter moved: the
  wrapper shows one exactly for a failed request whose \<open>skipNotification\<close> is not set.
\<close>

lemma fetch_wrapper_toast_iff:
  "notification_id (snd (fetch_wrapper original_fetch url skip ns)) \<noteq> notification_id ns
     \<longleftrightarrow> request_failed (original_fetch url) \<and> \<not> skip"
  by (auto simp: fetch_wrapper_def request_failed_def response_text_def Let_def showError_def
      show_notification_id split: fetch_result.splits sum.splits prod.splits if_splits)

text \<open>
  Claim C8 at a 500 response to \<open>fetch('/api/search/status')\<close>, first without and then with
  \<open>skipNotification\<close>. Without it the wrapper has read the body for its toast and hands the
  caller a response whose body is used up, so the caller's \<open>json()\<close> rejects; with it the
  caller gets the response untouched and \<open>json()\<close> yields the body.
\<close>

theorem fetch_wrapper_consumes_body:
  "fst (fetch_wrapper (\<lambda>u. Resolved server_error_500) ''/api/search/status'' False notif_init)
     = Resolved (server_error_500\<lparr>bodyUsed := True\<rparr>) \<and>
   response_json (server_error_500\<lparr>bodyUsed := True\<rparr>) = Inl body_already_read \<and>
   fst (fetch_wrapper (\<lambda>u. Resolved server_error_500) ''/api/search/status'' True notif_init)
     = Resolved server_error_500 \<and>
   response_json server_error_500
     = Inr (Parsed (Some ''boom'') None, server_error_500\<lparr>bodyUsed := True\<rparr>)"
  by (simp add: fetch_wrapper_def server_error_500_def response_ok_def response_text_def
      response_json_def Let_def)

section \<open>Properties of the search page and its readiness poller\<close>

lemma hide_all_result_elements_log [simp]:
  "requests (hide_all_result_elements p) = requests p"
  "shown (hide_all_result_elements p) = shown p"
  by (simp_all add: hide_all_result_elements_def)

lemma show_loading_log [simp]:
  "requests (show_loading p) = requests p"
  "shown (show_loading p) = shown p"
  by (simp_all add: show_loading_def)

lemma hide_loading_log [simp]:
  "requests (hide_loading p) = requests p"
  "shown (hide_loading p) = shown p"
  by (simp_all add: hide_loading_def hide_model_loading_def Let_def split: option.splits)

lemma hide_welcome_section_log [simp]:
  "requests (hide_welcome_section p) = requests p"
  "shown (hide_welcome_section p) = shown p"
  by (simp_all add: hide_welcome_section_def)

lemma update_model_loading_message_log [simp]:
  "requests (update_model_loading_message m p) = requests p"
  "shown (update_model_loading_message m p) = shown p"
  by (simp_all add: update_model_loading_message_def)

lemma show_model_loading_message_log [simp]:
  "requests (show_model_loading_message m p) = requests p"
  "shown (show_model_loading_message m p) = shown p"
  by (simp_all add: show_model_loading_message_def Let_def split: prod.splits)

lemma show_error_message_log [simp]:
  "requests (show_error_message m p) = requests p"
  "shown (show_error_message m p) = shown p @ [ErrorMessage m]"
  by (simp_all add: show_error_message_def Let_def)

lemma search_failed_log [simp]:
  "requests (search_failed m p) = requests p"
  "shown (search_failed m p) = shown p @ [ErrorMessage (''Search failed: '' @ m)]"
  by (simp_all add: search_failed_def)

lemma display_results_log [simp]:
  "requests (display_results d p) = requests p"
  "shown (display_results d p) = shown p @ [Results d]"
  by (simp_all add: display_results_def Let_def show_no_results_def display_normal_results_def
      show_results_def show_warning_message_def split: option.splits)

lemma poll_catch_log:
  "requests (snd (poll_catch m (pl, p))) = requests p"
  "shown (snd (poll_catch m (pl, p))) = shown p @ [ErrorMessage (''Search failed: '' @ m)]"
  "fst (poll_catch m (pl, p)) = pl\<lparr>timer_active := False\<rparr>"
  by (simp_all add: poll_catch_def clear_poll_timer_def Let_def split: option.splits)

lemma tick_fire_stopped: "\<not> timer_active pl \<Longrightarrow> tick_fire (pl, p) = (pl, p)"
  by (simp add: tick_fire_def)

lemma cycle_not_ready:
  assumes "timer_active pl" "status_inflight pl = 0" "Suc (attempts pl) < max_attempts"
  shows "fst (cycle (StatusData False ms) (pl, p)) = pl\<lparr>attempts := Suc (attempts pl)\<rparr>"
    and "requests (snd (cycle (StatusData False ms) (pl, p))) = requests p @ [status_request]"
    and "shown (snd (cycle (StatusData False ms) (pl, p))) = shown p"
  using assms by (cases pl; simp add: cycle_def tick_fire_def status_arrives_def clear_poll_timer_def Let_def status_request_def)+

lemma cycle_timeout:
  assumes "timer_active pl" "status_inflight pl = 0" "Suc (attempts pl) = max_attempts"
  shows "fst (cycle (StatusData False ms) (pl, p)) =
            pl\<lparr>attempts := max_attempts, timer_active := False\<rparr>"
    and "requests (snd (cycle (StatusData False ms) (pl, p))) = requests p @ [status_request]"
    and "shown (snd (cycle (StatusData False ms) (pl, p))) = shown p @ [ErrorMessage timeout_message]"
  using assms by (cases pl; simp add: cycle_def tick_fire_def status_arrives_def clear_poll_timer_def Let_def
      status_request_def poll_catch_log timeout_message_def split: option.splits)+

lemma cycle_ready:
  assumes "timer_active pl" "status_inflight pl = 0"
  shows "fst (cycle (StatusData True ms) (pl, p)) =
            pl\<lparr>attempts := Suc (attempts pl), timer_active := False,
               retry_inflight := Suc (retry_inflight pl)\<rparr>"
    and "requests (snd (cycle (StatusData True ms) (pl, p))) =
            requests p @ [status_request, POST (pl_endpoint pl) (pl_search_data pl)]"
    and "shown (snd (cycle (StatusData True ms) (pl, p))) = shown p"
  using assms by (cases pl; simp add: cycle_def tick_fire_def status_arrives_def clear_poll_timer_def Let_def
      status_request_def split: option.splits)+

lemma cycle_failed:
  assumes "timer_active pl" "status_inflight pl = 0"
  shows "fst (cycle (StatusFailed m) (pl, p)) =
            pl\<lparr>attempts := Suc (attempts pl), timer_active := False\<rparr>"
    and "requests (snd (cycle (StatusFailed m) (pl, p))) = requests p @ [status_request]"
    and "shown (snd (cycle (StatusFailed m) (pl, p))) =
            shown p @ [ErrorMessage (''Search failed: '' @ m)]"
  using assms by (cases pl; simp add: cycle_def tick_fire_def status_arrives_def clear_poll_timer_def Let_def
      status_request_def poll_catch_log split: option.splits)+

lemma cycles_append: "cycles (xs @ ys) c = cycles ys (cycles xs c)"
  by (induction xs arbitrary: c) simp_all

lemma not_ready_cases: "not_ready r \<Longrightarrow> \<exists>ms. r = StatusData False ms"
  by (cases r) (simp_all add: not_ready_def)

lemma cycles_not_ready:
  assumes "list_all not_ready rs" "timer_active pl" "status_inflight pl = 0"
    and "attempts pl + length rs < max_attempts"
  shows "fst (cycles rs (pl, p)) = pl\<lparr>attempts := attempts pl + length rs\<rparr> \<and>
         requests (snd (cycles rs (pl, p))) = requests p @ replicate (length rs) status_request \<and>
         shown (snd (cycles rs (pl, p))) = shown p"
  using assms
proof (induction rs arbitrary: pl p)
  case Nil
  then show ?case by simp
next
  case (Cons r rs)
  from Cons.prems obtain ms where r: "r = StatusData False ms"
    using not_ready_cases by auto
  let ?pl = "pl\<lparr>attempts := Suc (attempts pl)\<rparr>"
  let ?p = "snd (cycle r (pl, p))"
  from Cons.prems have small: "Suc (attempts pl) < max_attempts" by simp
  note step = cycle_not_ready [OF Cons.prems(2) Cons.prems(3) small, of ms p]
  have c: "cycle r (pl, p) = (?pl, ?p)"
    using step(1) r by (metis prod.collapse)
  have "fst (cycles rs (?pl, ?p)) = ?pl\<lparr>attempts := attempts ?pl + length rs\<rparr> \<and>
        requests (snd (cycles rs (?pl, ?p))) = requests ?p @ replicate (length rs) status_request \<and>
        shown (snd (cycles rs (?pl, ?p))) = shown ?p"
    using Cons.prems by (intro Cons.IH) simp_all
  then show ?case
    using c step(2,3) r by (simp add: replicate_append_same)
qed

lemma perform_search_Some:
  assumes "perform_search p = (Some (endpoint, body_data), pa)"
  shows "requests pa = requests p @ [POST endpoint body_data]" and "shown pa = shown p"
  using assms by (auto simp: perform_search_def Let_def split: if_splits)

lemma gated_dispatch_Some:
  assumes "gated_dispatch p data = Some (pl, p0)"
  shows "requests p0 = requests p @ [POST (pl_endpoint pl) (pl_search_data pl)]"
    and "shown p0 = shown p"
    and "attempts pl = 0" and "timer_active pl" and "status_inflight pl = 0"
    and "retry_inflight pl = 0"
proof -
  from assms obtain endpoint body_data pa where
    ps: "perform_search p = (Some (endpoint, body_data), pa)" and
    pr: "perform_search_reply endpoint body_data (SearchReplied 202 data) pa = (Some pl, p0)"
    by (auto simp: gated_dispatch_def split: prod.splits option.splits)
  from pr have pl: "pl = poll_for_model_ready_and_search body_data endpoint"
    by (auto simp: perform_search_reply_def Let_def split: if_splits option.splits)
  from pr have lg: "requests p0 = requests pa" "shown p0 = shown pa"
    by (auto simp: perform_search_reply_def Let_def split: if_splits option.splits)
  from pl show "attempts pl = 0" "timer_active pl" "status_inflight pl = 0" "retry_inflight pl = 0"
    by (simp_all add: poll_for_model_ready_and_search_def)
  from lg perform_search_Some [OF ps] pl
  show "requests p0 = requests p @ [POST (pl_endpoint pl) (pl_search_data pl)]" "shown p0 = shown p"
    by (simp_all add: poll_for_model_ready_and_search_def)
qed

lemma gated_dispatch_iff:
  "(\<exists>c. gated_dispatch p data = Some c) \<longleftrightarrow>
     trim (search_input_value p) \<noteq> [] \<and> sd_status data = Some ''model_loading'' \<and>
     sd_message data \<noteq> None"
  by (auto simp: gated_dispatch_def perform_search_def perform_search_reply_def Let_def
      ok_status_def split: prod.splits option.splits if_splits)

lemma cycles_stopped:
  "\<not> timer_active pl \<Longrightarrow> status_inflight pl = 0 \<Longrightarrow> cycles rs (pl, p) = (pl, p)"
  by (induction rs) (simp_all add: cycle_def tick_fire_def status_arrives_def)

lemma status_arrives_none: "status_inflight pl = 0 \<Longrightarrow> status_arrives r (pl, p) = (pl, p)"
  by (simp add: status_arrives_def)

lemma retry_arrives_log:
  assumes "retry_inflight pl = Suc n"
  shows "fst (retry_arrives reply (pl, p)) =
           (case reply of
              SearchReplied st r \<Rightarrow> if ok_status st then pl\<lparr>retry_inflight := n\<rparr>
                                     else pl\<lparr>retry_inflight := n, timer_active := False\<rparr>
            | SearchFailed e \<Rightarrow> pl\<lparr>retry_inflight := n, timer_active := False\<rparr>)"
    and "requests (snd (retry_arrives reply (pl, p))) = requests p"
    and "shown (snd (retry_arrives reply (pl, p))) = shown p @
           [case reply of
              SearchFailed e \<Rightarrow> ErrorMessage (''Search failed: '' @ e)
            | SearchReplied st r \<Rightarrow>
                if ok_status st then Results r
                else ErrorMessage (''Search failed: '' @ http_error r st)]"
  using assms
  by (simp_all add: retry_arrives_def Let_def poll_catch_log split: search_reply.splits)

text \<open>
  Claim C1, as amended: when every status reply arrives before the timer fires again. A
  search that was answered 202 with status \<open>model_loading\<close> has started a poller. When the
  status polls report not ready for fewer than \<open>max_attempts\<close> cycles and then ready, the
  requests sent over the whole episode are the original POST, one status GET per cycle and,
  once, a POST with the original endpoint and body; the reply to that retry makes no
  further request, the timer is off, and the one outcome surfaced is that of the retry: its
  body on a 2xx status, an error otherwise. The 202 body is not surfaced.
\<close>

theorem gated_search_retries_once:
  assumes d: "gated_dispatch p data = Some (pl, p0)"
    and nr: "list_all not_ready rs" and k: "length rs < max_attempts"
  shows "let original = POST (pl_endpoint pl) (pl_search_data pl);
             c1 = cycles (rs @ [StatusData True ms]) (pl, p0);
             c2 = retry_arrives reply c1
         in requests (snd c1) =
              requests p @ [original] @ replicate (Suc (length rs)) status_request @ [original] \<and>
            requests (snd c2) = requests (snd c1) \<and>
            tick_fire c2 = c2 \<and>
            shown (snd c2) = shown p @
              [case reply of
                 SearchFailed e \<Rightarrow> ErrorMessage (''Search failed: '' @ e)
               | SearchReplied st r \<Rightarrow>
                   if ok_status st then Results r
                   else ErrorMessage (''Search failed: '' @ http_error r st)]"
proof -
  note g = gated_dispatch_Some [OF d]
  let ?pl = "pl\<lparr>attempts := attempts pl + length rs\<rparr>"
  let ?c = "cycles rs (pl, p0)"
  from k g have k': "attempts pl + length rs < max_attempts" by simp
  note q = cycles_not_ready [OF nr g(4) g(5) k', of p0]
  then have c: "?c = (?pl, snd ?c)" by (metis prod.collapse)
  have idle: "timer_active ?pl" "status_inflight ?pl = 0" using g by simp_all
  note r = cycle_ready [OF idle, of ms "snd ?c"]
  let ?c1 = "cycles (rs @ [StatusData True ms]) (pl, p0)"
  have c1: "?c1 = cycle (StatusData True ms) (?pl, snd ?c)"
    using c by (simp add: cycles_append)
  let ?pl1 = "?pl\<lparr>attempts := Suc (attempts ?pl), timer_active := False,
               retry_inflight := Suc (retry_inflight ?pl)\<rparr>"
  have c1': "?c1 = (?pl1, snd ?c1)"
    using r(1) c1 by (metis prod.collapse)
  have req1: "requests (snd ?c1) =
      requests p @ [POST (pl_endpoint pl) (pl_search_data pl)]
        @ replicate (Suc (length rs)) status_request @ [POST (pl_endpoint pl) (pl_search_data pl)]"
    using r(2) c1 q g(1) by (simp add: replicate_append_same)
  have sh1: "shown (snd ?c1) = shown p"
    using r(3) c1 q g(2) by simp
  have ri: "retry_inflight ?pl1 = Suc 0" using g by simp
  note ra = retry_arrives_log [OF ri, of reply "snd ?c1"]
  let ?c2 = "retry_arrives reply ?c1"
  have c2: "?c2 = retry_arrives reply (?pl1, snd ?c1)" using c1' by simp
  have stopped: "\<not> timer_active (fst ?c2)"
    unfolding c2 ra(1) by (simp split: search_reply.splits)
  have "tick_fire ?c2 = ?c2"
    using tick_fire_stopped [OF stopped, of "snd ?c2"] by simp
  moreover have "requests (snd ?c2) = requests (snd ?c1)"
    unfolding c2 ra(2) ..
  moreover have "shown (snd ?c2) = shown p @
              [case reply of
                 SearchFailed e \<Rightarrow> ErrorMessage (''Search failed: '' @ e)
               | SearchReplied st r \<Rightarrow>
                   if ok_status st then Results r
                   else ErrorMessage (''Search failed: '' @ http_error r st)]"
    unfolding c2 ra(3) sh1 ..
  ultimately show ?thesis using req1 by (simp add: Let_def)
qed


lemma dogs_dispatch:
  "\<exists>p0. gated_dispatch (page_with_query ''dogs'') loading_202 =
     Some (poll_for_model_ready_and_search
             \<lparr>bd_query = ''dogs'', bd_max_results = 10, bd_hybrid_function = None\<rparr> ''/search'', p0)"
  by (simp add: gated_dispatch_def perform_search_def perform_search_reply_def
      page_with_query_def loading_202_def trim_def is_white_space_def Let_def)

theorem gated_search_retries_once_witness:
  "map_option (\<lambda>c. let c2 = retry_arrives (SearchReplied 200 three_results)
                            (cycles (replicate 3 (StatusData False ''loading'')
                                       @ [StatusData True ''loaded'']) c)
                   in (requests (snd c2), shown (snd c2), tick_fire c2 = c2))
     (gated_dispatch (page_with_query ''dogs'') loading_202) =
   Some ([POST ''/search'' \<lparr>bd_query = ''dogs'', bd_max_results = 10, bd_hybrid_function = None\<rparr>,
          status_request, status_request, status_request, status_request,
          POST ''/search'' \<lparr>bd_query = ''dogs'', bd_max_results = 10, bd_hybrid_function = None\<rparr>],
         [Results three_results], True)"
proof -
  from dogs_dispatch obtain p0 where
    d: "gated_dispatch (page_with_query ''dogs'') loading_202 =
     Some (poll_for_model_ready_and_search
             \<lparr>bd_query = ''dogs'', bd_max_results = 10, bd_hybrid_function = None\<rparr> ''/search'', p0)"
    by blast
  have nr: "list_all not_ready (replicate 3 (StatusData False ''loading''))"
    by (simp add: not_ready_def numeral_eq_Suc)
  have k: "length (replicate 3 (StatusData False ''loading'')) < max_attempts"
    by (simp add: max_attempts_def)
  from gated_search_retries_once [OF d nr k, of "''loaded''" "SearchReplied 200 three_results"]
  show ?thesis
    unfolding d
    by (simp add: Let_def poll_for_model_ready_and_search_def page_with_query_def ok_status_def
        numeral_eq_Suc)
qed

lemma dogs_dispatch_gated:
  "gated_dispatch (page_with_query ''dogs'') loading_202 = Some dogs_dispatch"
  by (simp add: gated_dispatch_def dogs_dispatch_def perform_search_def perform_search_reply_def
      page_with_query_def loading_202_def dogs_def trim_def is_white_space_def Let_def)

lemma dogs_dispatch_log:
  "requests (snd dogs_dispatch) = [POST ''/search'' dogs]"
  "shown (snd dogs_dispatch) = []"
  "fst dogs_dispatch = poll_for_model_ready_and_search dogs ''/search''"
  using gated_dispatch_Some [OF dogs_dispatch_gated [unfolded dogs_dispatch_def]]
  by (simp_all add: dogs_dispatch_def page_with_query_def poll_for_model_ready_and_search_def)

text \<open>
  Claim C1 fails as stated when replies overlap: the timer fires twice before the first
  status reply is there, both replies report ready, the original search is sent again twice
  and both replies to it are surfaced.
\<close>

theorem overlapping_retry_counterexample:
  "gated_dispatch (page_with_query ''dogs'') loading_202 = Some dogs_dispatch \<and>
   requests (snd (poll_run
      [Fire, Fire, StatusReply (StatusData True ''loaded''),
       StatusReply (StatusData True ''loaded''),
       RetryReply (SearchReplied 200 three_results),
       RetryReply (SearchReplied 200 three_results)] dogs_dispatch))
     = [POST ''/search'' dogs, status_request, status_request,
        POST ''/search'' dogs, POST ''/search'' dogs] \<and>
   shown (snd (poll_run
      [Fire, Fire, StatusReply (StatusData True ''loaded''),
       StatusReply (StatusData True ''loaded''),
       RetryReply (SearchReplied 200 three_results),
       RetryReply (SearchReplied 200 three_results)] dogs_dispatch))
     = [Results three_results, Results three_results]"
proof -
  obtain p0 where c: "dogs_dispatch = (poll_for_model_ready_and_search dogs ''/search'', p0)"
    by (simp add: dogs_dispatch_def)
  have p0: "requests p0 = [POST ''/search'' dogs]" "shown p0 = []"
    using dogs_dispatch_log(1,2) unfolding c by simp_all
  show ?thesis
    unfolding c using p0 dogs_dispatch_gated [unfolded c]
    by (simp add: tick_fire_def status_arrives_def retry_arrives_def
        poll_for_model_ready_and_search_def clear_poll_timer_def status_request_def Let_def
        ok_status_def split: option.splits)
qed

lemma poll_step_never_ready:
  assumes "retry_inflight pl = 0" and "never_ready e"
  shows "retry_inflight (fst (poll_step e (pl, p))) = 0 \<and>
         filter is_search_request (requests (snd (poll_step e (pl, p))))
           = filter is_search_request (requests p)"
proof (cases e)
  case Fire
  with assms show ?thesis by (simp add: tick_fire_def)
next
  case (StatusReply reply)
  with assms obtain ms where r: "reply = StatusData False ms"
    using not_ready_cases by (auto simp: never_ready_def)
  show ?thesis
    using assms(1) unfolding StatusReply r
    by (simp add: status_arrives_def Let_def poll_catch_log clear_poll_timer_def
        split: option.splits)
next
  case (RetryReply reply)
  with assms show ?thesis by (simp add: retry_arrives_def)
qed

lemma poll_run_never_ready:
  assumes "retry_inflight pl = 0" and "list_all never_ready es"
  shows "filter is_search_request (requests (snd (poll_run es (pl, p))))
           = filter is_search_request (requests p)"
  using assms
proof (induction es arbitrary: pl p)
  case Nil
  then show ?case by simp
next
  case (Cons e es)
  from Cons.prems have e: "never_ready e" and es: "list_all never_ready es" by simp_all
  note s = poll_step_never_ready [OF Cons.prems(1) e, of p]
  obtain pl' p' where c: "poll_step e (pl, p) = (pl', p')" by (cases "poll_step e (pl, p)")
  with s have "retry_inflight pl' = 0"
    "filter is_search_request (requests p') = filter is_search_request (requests p)"
    by simp_all
  with Cons.IH [OF this(1) es, of p'] c show ?case by simp
qed

lemma take_all_not_ready: "list_all not_ready rs \<Longrightarrow> list_all not_ready (take k rs)"
  by (simp add: list_all_iff) (meson in_set_takeD)

text \<open>
  Claim C2, as amended: when every status reply arrives before the timer fires again. The
  backend answers every status poll with a not-ready status. After each of
  the first 59 cycles the timer is still set and nothing has been surfaced; the 60th cycle
  clears the timer and surfaces the timeout error. Over the whole episode the requests are
  the original POST and 60 status GETs, so the search is not sent again; after the 60th cycle
  the timer fires no more, and further replies change nothing. Under any schedule of timer
  firings and not-ready replies the original POST stays the only search request.
\<close>

theorem always_loading_times_out:
  assumes d: "gated_dispatch p data = Some (pl, p0)"
    and nr: "list_all not_ready rs" and n: "max_attempts \<le> length rs"
  shows "(\<forall>k<max_attempts.
            timer_active (fst (cycles (take k rs) (pl, p0))) \<and>
            shown (snd (cycles (take k rs) (pl, p0))) = shown p) \<and>
         (let c = cycles (take max_attempts rs) (pl, p0)
          in \<not> timer_active (fst c) \<and>
             shown (snd c) = shown p @ [ErrorMessage timeout_message] \<and>
             requests (snd c) = requests p @ [POST (pl_endpoint pl) (pl_search_data pl)]
                                  @ replicate max_attempts status_request \<and>
             tick_fire c = c \<and>
             cycles rs (pl, p0) = c) \<and>
         (\<forall>es. list_all never_ready es \<longrightarrow>
            filter is_search_request (requests (snd (poll_run es (pl, p0))))
              = filter is_search_request (requests p)
                  @ [POST (pl_endpoint pl) (pl_search_data pl)])"
proof (intro conjI allI impI)
  note g = gated_dispatch_Some [OF d]
  {
    fix k assume k: "k < max_attempts"
    with n have len: "length (take k rs) = k" by simp
    have "attempts pl + length (take k rs) < max_attempts" using k g len by simp
    note cycles_not_ready [OF take_all_not_ready [OF nr] g(4) g(5) this, of p0] len
  } note before = this
  fix k assume k: "k < max_attempts"
  from before [OF k] g show "timer_active (fst (cycles (take k rs) (pl, p0)))" by simp
  from before [OF k] g show "shown (snd (cycles (take k rs) (pl, p0))) = shown p" by simp
next
  note g = gated_dispatch_Some [OF d]
  define m where "m = max_attempts - 1"
  have m: "Suc m = max_attempts" "m < max_attempts" by (simp_all add: m_def max_attempts_def)
  from n m have lm: "length (take m rs) = m" by simp
  have "attempts pl + length (take m rs) < max_attempts" using m g lm by simp
  note q = cycles_not_ready [OF take_all_not_ready [OF nr] g(4) g(5) this, of p0]
  let ?pl = "pl\<lparr>attempts := m\<rparr>"
  let ?c = "cycles (take m rs) (pl, p0)"
  have c: "?c = (?pl, snd ?c)" using q lm g by (metis add_0 prod.collapse)
  from n m have "m < length rs" by simp
  then have split: "take max_attempts rs = take m rs @ [rs ! m]"
    using m(1) by (metis take_Suc_conv_app_nth)
  from nr \<open>m < length rs\<close> have "not_ready (rs ! m)" by (simp add: list_all_length)
  then obtain ms where rm: "rs ! m = StatusData False ms" using not_ready_cases by blast
  have idle: "timer_active ?pl" "status_inflight ?pl = 0" "Suc (attempts ?pl) = max_attempts"
    using g m by simp_all
  note t = cycle_timeout [OF idle, of ms "snd ?c"]
  let ?c60 = "cycles (take max_attempts rs) (pl, p0)"
  have c60: "?c60 = cycle (StatusData False ms) (?pl, snd ?c)"
    using c by (simp add: split cycles_append rm)
  have stopped: "\<not> timer_active (fst ?c60)" "status_inflight (fst ?c60) = 0"
    unfolding c60 t(1) using g by simp_all
  have tf: "tick_fire ?c60 = ?c60"
    using tick_fire_stopped [OF stopped(1), of "snd ?c60"] by simp
  have "rs = take max_attempts rs @ drop max_attempts rs" by simp
  then have "cycles rs (pl, p0) = cycles (drop max_attempts rs) ?c60"
    by (metis cycles_append)
  also have "\<dots> = ?c60"
    using cycles_stopped [OF stopped, of "drop max_attempts rs" "snd ?c60"] by simp
  finally have all: "cycles rs (pl, p0) = ?c60" .
  have sh: "shown (snd ?c60) = shown p @ [ErrorMessage timeout_message]"
    unfolding c60 t(3) using q g by simp
  have rq: "requests (snd ?c60) = requests p @ [POST (pl_endpoint pl) (pl_search_data pl)]
                                  @ replicate max_attempts status_request"
  proof -
    have "replicate m status_request @ [status_request] = replicate max_attempts status_request"
      unfolding m(1) [symmetric] by (simp add: replicate_append_same)
    then show ?thesis
      unfolding c60 t(2) using q g lm by simp
  qed
  from stopped(1) sh rq tf all
  show "let c = cycles (take max_attempts rs) (pl, p0)
          in \<not> timer_active (fst c) \<and>
             shown (snd c) = shown p @ [ErrorMessage timeout_message] \<and>
             requests (snd c) = requests p @ [POST (pl_endpoint pl) (pl_search_data pl)]
                                  @ replicate max_attempts status_request \<and>
             tick_fire c = c \<and>
             cycles rs (pl, p0) = c"
    by (simp add: Let_def)
next
  note g = gated_dispatch_Some [OF d]
  fix es assume "list_all never_ready es"
  from poll_run_never_ready [OF g(6) this, of p0] g(1)
  show "filter is_search_request (requests (snd (poll_run es (pl, p0))))
          = filter is_search_request (requests p) @ [POST (pl_endpoint pl) (pl_search_data pl)]"
    by simp
qed

theorem always_loading_times_out_witness:
  "list_all not_ready (replicate 60 (StatusData False ''loading'')) \<and>
   max_attempts \<le> length (replicate 60 (StatusData False ''loading'')) \<and>
   map_option (\<lambda>c. let c' = cycles (replicate 60 (StatusData False ''loading'')) c
                   in (timer_active (fst c'), shown (snd c'), requests (snd c')))
     (gated_dispatch (page_with_query ''dogs'') loading_202) =
   Some (False, [ErrorMessage timeout_message],
         POST ''/search'' \<lparr>bd_query = ''dogs'', bd_max_results = 10, bd_hybrid_function = None\<rparr>
           # replicate 60 status_request)"
proof -
  from dogs_dispatch obtain p0 where
    d: "gated_dispatch (page_with_query ''dogs'') loading_202 =
     Some (poll_for_model_ready_and_search
             \<lparr>bd_query = ''dogs'', bd_max_results = 10, bd_hybrid_function = None\<rparr> ''/search'', p0)"
    by blast
  have nr: "list_all not_ready (replicate 60 (StatusData False ''loading''))"
    by (simp add: not_ready_def list_all_iff)
  have n: "max_attempts \<le> length (replicate 60 (StatusData False ''loading''))"
    by (simp add: max_attempts_def)
  from always_loading_times_out [OF d nr n] have
    "let c = cycles (take max_attempts (replicate 60 (StatusData False ''loading'')))
               (poll_for_model_ready_and_search
                  \<lparr>bd_query = ''dogs'', bd_max_results = 10, bd_hybrid_function = None\<rparr>
                  ''/search'', p0)
     in \<not> timer_active (fst c) \<and>
        shown (snd c) = shown (page_with_query ''dogs'') @ [ErrorMessage timeout_message] \<and>
        requests (snd c) = requests (page_with_query ''dogs'') @
           [POST (pl_endpoint (poll_for_model_ready_and_search
                  \<lparr>bd_query = ''dogs'', bd_max_results = 10, bd_hybrid_function = None\<rparr>
                  ''/search''))
                 (pl_search_data (poll_for_model_ready_and_search
                  \<lparr>bd_query = ''dogs'', bd_max_results = 10, bd_hybrid_function = None\<rparr>
                  ''/search''))]
           @ replicate max_attempts status_request \<and>
        tick_fire c = c \<and>
        cycles (replicate 60 (StatusData False ''loading''))
          (poll_for_model_ready_and_search
                  \<lparr>bd_query = ''dogs'', bd_max_results = 10, bd_hybrid_function = None\<rparr>
                  ''/search'', p0) = c"
    by (elim conjE)
  then show ?thesis
    unfolding d using nr n
    by (simp add: Let_def poll_for_model_ready_and_search_def page_with_query_def
        max_attempts_def)
qed

lemma fires:
  assumes "timer_active pl"
  shows "poll_run (replicate n Fire) (pl, p) =
           (pl\<lparr>attempts := attempts pl + n, status_inflight := status_inflight pl + n\<rparr>,
            p\<lparr>requests := requests p @ replicate n status_request\<rparr>)"
  using assms
proof (induction n arbitrary: pl p)
  case 0
  then show ?case by simp
next
  case (Suc n)
  let ?pl = "pl\<lparr>attempts := Suc (attempts pl), status_inflight := Suc (status_inflight pl)\<rparr>"
  have "timer_active ?pl" using Suc.prems by simp
  from Suc.IH [OF this] Suc.prems show ?case
    by (simp add: tick_fire_def status_request_def replicate_append_same)
qed

lemma poll_run_append: "poll_run (xs @ ys) c = poll_run ys (poll_run xs c)"
  by (induction xs arbitrary: c) simp_all

text \<open>
  Claim C2 fails as stated when the replies are slow: no reply has arrived when the timer
  has fired 61 times, so the poller is still polling past the 60th cycle; the first
  not-ready reply then finds \<open>attempts\<close> at 61 and raises the timeout.
\<close>

theorem slow_replies_counterexample:
  "timer_active (fst (poll_run (replicate 61 Fire) dogs_dispatch)) \<and>
   requests (snd (poll_run (replicate 61 Fire @ [StatusReply (StatusData False ''loading'')])
                    dogs_dispatch))
     = POST ''/search'' dogs # replicate 61 status_request \<and>
   \<not> timer_active (fst (poll_run (replicate 61 Fire @ [StatusReply (StatusData False ''loading'')])
                          dogs_dispatch)) \<and>
   shown (snd (poll_run (replicate 61 Fire @ [StatusReply (StatusData False ''loading'')])
                 dogs_dispatch))
     = [ErrorMessage timeout_message]"
proof -
  obtain p0 where c: "dogs_dispatch = (poll_for_model_ready_and_search dogs ''/search'', p0)"
    by (simp add: dogs_dispatch_def)
  have p0: "requests p0 = [POST ''/search'' dogs]" "shown p0 = []"
    using dogs_dispatch_log(1,2) unfolding c by simp_all
  have a: "timer_active (poll_for_model_ready_and_search dogs ''/search'')"
    by (simp add: poll_for_model_ready_and_search_def)
  note f = fires [OF a, of 61 p0]
  show ?thesis
    unfolding c poll_run_append f using p0
    by (simp add: status_arrives_def poll_for_model_ready_and_search_def Let_def
        max_attempts_def poll_catch_log timeout_message_def clear_poll_timer_def
        split: option.splits)
qed

text \<open>
  Claim C3, as amended: when every reply arrives before the timer fires again. With the
  first ready report in cycle \<open>k\<close> (the cycles before it reporting not ready, \<open>k\<close> within
  the 60 attempts), no retry is sent and the timer stays set through cycles \<open>1\<close> to \<open>k - 1\<close>;
  cycle \<open>k\<close> sends the retry once and clears the timer. After that the timer does not fire, no
  status reply is outstanding, and clearing the timer again changes nothing.
\<close>

theorem ready_fires_once_without_overlap:
  assumes idle: "timer_active pl" "status_inflight pl = 0"
    and nr: "list_all not_ready rs" and k: "attempts pl + length rs < max_attempts"
  shows "(\<forall>j\<le>length rs.
            let c = cycles (take j rs) (pl, p)
            in timer_active (fst c) \<and> retry_inflight (fst c) = retry_inflight pl \<and>
               requests (snd c) = requests p @ replicate j status_request) \<and>
         (let c = cycles (rs @ [StatusData True ms]) (pl, p)
          in \<not> timer_active (fst c) \<and> retry_inflight (fst c) = Suc (retry_inflight pl) \<and>
             requests (snd c) = requests p @ replicate (Suc (length rs)) status_request
                                  @ [POST (pl_endpoint pl) (pl_search_data pl)] \<and>
             tick_fire c = c \<and>
             (\<forall>r. status_arrives r c = c) \<and>
             clear_poll_timer (fst c) = fst c)"
proof (intro conjI allI impI)
  fix j assume j: "j \<le> length rs"
  then have len: "length (take j rs) = j" by simp
  have "attempts pl + length (take j rs) < max_attempts" using k j by simp
  from cycles_not_ready [OF take_all_not_ready [OF nr] idle this, of p] len
  show "let c = cycles (take j rs) (pl, p)
            in timer_active (fst c) \<and> retry_inflight (fst c) = retry_inflight pl \<and>
               requests (snd c) = requests p @ replicate j status_request"
    using idle by (simp add: Let_def)
next
  let ?pl = "pl\<lparr>attempts := attempts pl + length rs\<rparr>"
  let ?c = "cycles rs (pl, p)"
  note q = cycles_not_ready [OF nr idle k, of p]
  then have c: "?c = (?pl, snd ?c)" by (metis prod.collapse)
  have idle': "timer_active ?pl" "status_inflight ?pl = 0" using idle by simp_all
  note r = cycle_ready [OF idle', of ms "snd ?c"]
  let ?c1 = "cycles (rs @ [StatusData True ms]) (pl, p)"
  have c1: "?c1 = cycle (StatusData True ms) (?pl, snd ?c)"
    using c by (simp add: cycles_append)
  have f: "fst ?c1 = ?pl\<lparr>attempts := Suc (attempts ?pl), timer_active := False,
               retry_inflight := Suc (retry_inflight ?pl)\<rparr>"
    unfolding c1 r(1) ..
  have stopped: "\<not> timer_active (fst ?c1)" and none: "status_inflight (fst ?c1) = 0"
    unfolding f using idle by simp_all
  have tf: "tick_fire ?c1 = ?c1"
    using tick_fire_stopped [OF stopped, of "snd ?c1"] by simp
  have sa: "\<forall>r. status_arrives r ?c1 = ?c1"
    using status_arrives_none [OF none, of _ "snd ?c1"] by simp
  have cl: "clear_poll_timer (fst ?c1) = fst ?c1"
    unfolding f by (simp add: clear_poll_timer_def)
  have rq: "requests (snd ?c1) = requests p @ replicate (Suc (length rs)) status_request
                                  @ [POST (pl_endpoint pl) (pl_search_data pl)]"
    unfolding c1 r(2) using q by (simp add: replicate_append_same)
  have ri: "retry_inflight (fst ?c1) = Suc (retry_inflight pl)"
    unfolding f by simp
  from stopped ri rq tf sa cl
  show "let c = cycles (rs @ [StatusData True ms]) (pl, p)
          in \<not> timer_active (fst c) \<and> retry_inflight (fst c) = Suc (retry_inflight pl) \<and>
             requests (snd c) = requests p @ replicate (Suc (length rs)) status_request
                                  @ [POST (pl_endpoint pl) (pl_search_data pl)] \<and>
             tick_fire c = c \<and>
             (\<forall>r. status_arrives r c = c) \<and>
             clear_poll_timer (fst c) = fst c"
    by (simp add: Let_def)
qed

theorem ready_fires_once_without_overlap_witness:
  "timer_active (poll_for_model_ready_and_search dogs ''/search'') \<and>
   status_inflight (poll_for_model_ready_and_search dogs ''/search'') = 0 \<and>
   list_all not_ready (replicate 3 (StatusData False ''loading'')) \<and>
   attempts (poll_for_model_ready_and_search dogs ''/search'')
     + length (replicate 3 (StatusData False ''loading'')) < max_attempts \<and>
   requests (snd (cycles (replicate 3 (StatusData False ''loading'') @ [StatusData True ''loaded''])
                    (poll_for_model_ready_and_search dogs ''/search'', page_with_query ''dogs'')))
     = [status_request, status_request, status_request, status_request, POST ''/search'' dogs]"
proof -
  have idle: "timer_active (poll_for_model_ready_and_search dogs ''/search'')"
    "status_inflight (poll_for_model_ready_and_search dogs ''/search'') = 0"
    by (simp_all add: poll_for_model_ready_and_search_def)
  have nr: "list_all not_ready (replicate 3 (StatusData False ''loading''))"
    by (simp add: not_ready_def list_all_iff)
  have k: "attempts (poll_for_model_ready_and_search dogs ''/search'')
     + length (replicate 3 (StatusData False ''loading'')) < max_attempts"
    by (simp add: poll_for_model_ready_and_search_def max_attempts_def)
  from ready_fires_once_without_overlap [OF idle nr k, of "page_with_query ''dogs''" "''loaded''"]
  show ?thesis using idle nr k
    by (simp add: Let_def poll_for_model_ready_and_search_def page_with_query_def numeral_eq_Suc)
qed

text \<open>
  Claim C3 fails as stated when replies overlap: the timer fires twice before the first
  reply is there, both replies report ready, and the search is sent again twice.
\<close>

theorem overlapping_ready_counterexample:
  "requests (snd (status_arrives (StatusData True ''loaded'')
                    (status_arrives (StatusData True ''loaded'')
                       (tick_fire (tick_fire
                          (poll_for_model_ready_and_search dogs ''/search'',
                           page_with_query ''dogs''))))))
     = [status_request, status_request, POST ''/search'' dogs, POST ''/search'' dogs]"
  by (simp add: tick_fire_def status_arrives_def poll_for_model_ready_and_search_def
      clear_poll_timer_def page_with_query_def status_request_def Let_def show_loading_def
      hide_all_result_elements_def)

section \<open>Searching with a blank query\<close>

text \<open>
  Claim C10, as amended. With a query that is empty after \<open>trim\<close>, neither the static page
  nor the React hook sends a request, and both surface the message
  \<open>Please enter a search query\<close>. The hook changes nothing else. The static page surfaces it
  through \<open>show_error_message\<close>, which first hides the loading indicator, the no-results
  element, the results list and the model-loading indicator; everything else on the page,
  the items of the results list among it, stays as it was.
\<close>

theorem blank_query_sends_nothing:
  assumes "trim (search_input_value p) = []" and "trim query = []"
  shows "fst (perform_search p) = None \<and>
         requests (snd (perform_search p)) = requests p \<and>
         shown (snd (perform_search p)) = shown p @ [ErrorMessage ''Please enter a search query''] \<and>
         map_of (notification_list (notifs (snd (perform_search p)))) (notification_id (notifs p))
           = Some \<lparr>n_type = ''error'', n_title = ''Search Error'',
                    n_message = ''Please enter a search query''\<rparr> \<and>
         loading_display (snd (perform_search p)) = ''none'' \<and>
         no_results_display (snd (perform_search p)) = ''none'' \<and>
         results_list_display (snd (perform_search p)) = ''none'' \<and>
         (snd (perform_search p))
           \<lparr>loading_display := loading_display p,
            no_results_display := no_results_display p,
            results_list_display := results_list_display p,
            model_loading_indicator := model_loading_indicator p,
            notifs := notifs p,
            shown := shown p\<rparr> = p \<and>
         performSearch cfg query h =
           h\<lparr>onError_calls := onError_calls h @ [''Please enter a search query'']\<rparr>"
  using assms
  by (simp add: perform_search_def performSearch_def show_error_message_def
      hide_all_result_elements_def Let_def showError_def show_notification_list
      show_notification_fst update_conv')

lemma late_results_page_eq:
  "late_results_page =
     \<lparr>search_input_value = [], max_results_select = 10, is_hybrid_search = False,
      hybrid_function_select = 1, welcome_display = Some ''block'', loading_display = ''none'',
      no_results_display = ''none'', results_list_display = ''flex'',
      results_list_items = [''a'', ''b'', ''c''], model_loading_indicator = None,
      button_disabled = False, button_text = ''Search'', button_loading = False,
      loadingNotificationId = None, notifs = notif_init, page_timeouts = [],
      requests = [POST ''/search'' dogs], shown = [Results three_results]\<rparr>"
  by (simp add: late_results_page_def page_with_query_def perform_search_def
      perform_search_reply_def input_event_def clear_results_def show_welcome_section_def
      hide_welcome_section_def show_loading_def hide_loading_def hide_model_loading_def
      hide_all_result_elements_def display_results_def display_normal_results_def
      show_results_def three_results_def dogs_def ok_status_def trim_def is_white_space_def
      Let_def)

theorem blank_query_sends_nothing_witness:
  "trim (search_input_value late_results_page) = [] \<and> trim '' '' = [] \<and>
   fst (perform_search late_results_page) = None \<and>
   requests (snd (perform_search late_results_page)) = [POST ''/search'' dogs] \<and>
   results_list_items (snd (perform_search late_results_page)) = [''a'', ''b'', ''c''] \<and>
   performSearch \<lparr>apiBaseUrl = ''http://localhost:5000'', defaultMaxResults = 8\<rparr> '' ''
       hook_with_results
     = hook_with_results\<lparr>onError_calls := [''Please enter a search query'']\<rparr>"
proof -
  have a: "trim (search_input_value late_results_page) = []"
    by (simp add: late_results_page_eq trim_def)
  have b: "trim '' '' = []"
    by (simp add: trim_def is_white_space_def)
  have c: "results_list_items late_results_page = [''a'', ''b'', ''c'']"
    "requests late_results_page = [POST ''/search'' dogs]"
    "onError_calls hook_with_results = []"
    by (simp_all add: late_results_page_eq hook_with_results_def)
  from blank_query_sends_nothing [OF a b, of
      "\<lparr>apiBaseUrl = ''http://localhost:5000'', defaultMaxResults = 8\<rparr>" hook_with_results]
  have e: "(snd (perform_search late_results_page))
           \<lparr>loading_display := loading_display late_results_page,
            no_results_display := no_results_display late_results_page,
            results_list_display := results_list_display late_results_page,
            model_loading_indicator := model_loading_indicator late_results_page,
            notifs := notifs late_results_page,
            shown := shown late_results_page\<rparr> = late_results_page"
    and r: "fst (perform_search late_results_page) = None"
      "requests (snd (perform_search late_results_page)) = requests late_results_page"
      "performSearch \<lparr>apiBaseUrl = ''http://localhost:5000'', defaultMaxResults = 8\<rparr> '' ''
         hook_with_results
       = hook_with_results\<lparr>onError_calls := onError_calls hook_with_results
                                @ [''Please enter a search query'']\<rparr>"
    by simp_all
  have "results_list_items (snd (perform_search late_results_page))
      = results_list_items late_results_page"
    using arg_cong [OF e, of results_list_items] by simp
  with a b c r show ?thesis by simp
qed

text \<open>
  Claim C10 fails as stated on the static page: results that were on display are hidden.
\<close>

theorem blank_query_hides_results_counterexample:
  "trim (search_input_value late_results_page) = [] \<and>
   results_list_display late_results_page = ''flex'' \<and>
   results_list_display (snd (perform_search late_results_page)) = ''none''"
  by (simp add: late_results_page_eq trim_def perform_search_def show_error_message_def
      hide_all_result_elements_def Let_def)

section \<open>Properties of the debug panel\<close>

lemma panel_inv_timer_state: "timer_state s = timer_state s' \<Longrightarrow> panel_inv s = panel_inv s'"
  by (simp add: timer_state_def panel_inv_def timers_of_def)

lemma timer_state_simps [simp]:
  "timer_state (update_progress_display pr s) = timer_state s"
  "timer_state (set_container cls s) = timer_state s"
  "timer_state (fetch_progress k s) = timer_state s"
  "timer_state (panel_toast f t m s) = timer_state s"
  "timer_state (generation_finally s) = timer_state s"
  "timer_state (idle_reset s) = timer_state s"
  "timer_state (s\<lparr>pending := pe\<rparr>) = timer_state s"
  "timer_state (s\<lparr>panel_timeouts := ts\<rparr>) = timer_state s"
  "timer_state (s\<lparr>is_debug_open := b\<rparr>) = timer_state s"
  "timer_state (s\<lparr>panel_requests := rq\<rparr>) = timer_state s"
  "timer_state (s\<lparr>gen_button_disabled := b, gen_button_text := t\<rparr>) = timer_state s"
  by (simp_all add: timer_state_def update_progress_display_def set_container_def
      fetch_progress_def panel_toast_def generation_finally_def idle_reset_def)

lemma mem_timers_of: "i \<in> set (timers_of kind s) \<longleftrightarrow> (i, kind) \<in> set (intervals s)"
  by (force simp: timers_of_def)

lemma timers_of_clear_interval:
  "timers_of kind (clear_interval i s) = filter (\<lambda>j. j \<noteq> i) (timers_of kind s)"
proof -
  have "map fst (filter (\<lambda>(j, k). k = kind) (AList.delete i xs))
        = filter (\<lambda>j. j \<noteq> i) (map fst (filter (\<lambda>(j, k). k = kind) xs))" for xs
    by (induction xs) (auto simp: AList.delete_eq)
  then show ?thesis by (simp add: timers_of_def clear_interval_def)
qed

lemma timers_of_set_interval:
  "timers_of kind (snd (set_interval kind' s))
     = timers_of kind s @ (if kind = kind' then [next_interval s] else [])"
  by (simp add: timers_of_def set_interval_def)

lemma kinds_disjoint:
  assumes "distinct (map fst (intervals s))"
    and "i \<in> set (timers_of k s)" and "k \<noteq> k'"
  shows "i \<notin> set (timers_of k' s)"
  using assms eq_key_imp_eq_value [of "intervals s" i k k']
  by (auto simp: mem_timers_of)

lemma filter_option_list_other:
  "a \<notin> set (option_list x) \<Longrightarrow> filter (\<lambda>j. j \<noteq> a) (option_list x) = option_list x"
  by (cases x) (simp_all add: option_list_def)

lemma panel_inv_clear:
  assumes inv: "panel_inv s"
  shows "distinct (map fst (intervals (clear_interval i s)))"
    and "list_all (\<lambda>j. j < next_interval s) (map fst (intervals (clear_interval i s)))"
proof -
  from inv show "distinct (map fst (intervals (clear_interval i s)))"
    by (simp add: panel_inv_def clear_interval_def distinct_delete)
  from inv show "list_all (\<lambda>j. j < next_interval s) (map fst (intervals (clear_interval i s)))"
    by (auto simp: panel_inv_def clear_interval_def list_all_iff AList.delete_eq)
qed

lemma panel_inv_stop_progress_polling:
  assumes inv: "panel_inv s"
  shows "panel_inv (stop_progress_polling s)"
proof (cases "global_progress_interval s")
  case None
  with inv show ?thesis by (simp add: stop_progress_polling_def)
next
  case (Some i)
  from inv Some have f: "timers_of Fast s = [i]"
    by (simp add: panel_inv_def option_list_def)
  from inv have d: "distinct (map fst (intervals s))" by (simp add: panel_inv_def)
  have "i \<notin> set (timers_of Background s)"
    using kinds_disjoint [OF d, of i Fast Background] f by simp
  then have b: "filter (\<lambda>j. j \<noteq> i) (timers_of Background s) = timers_of Background s"
    using inv by (simp add: panel_inv_def filter_option_list_other)
  let ?s = "(clear_interval i s)\<lparr>global_progress_interval := None\<rparr>"
  have "timers_of Fast ?s = []" "timers_of Background ?s = timers_of Background s"
    using timers_of_clear_interval [of _ i s] f b by (simp_all add: timers_of_def)
  moreover have "background_progress_check ?s = background_progress_check s"
    "next_interval ?s = next_interval s" "intervals ?s = intervals (clear_interval i s)"
    by (simp_all add: clear_interval_def)
  ultimately show ?thesis
    using inv panel_inv_clear [OF inv, of i] Some
    by (simp add: stop_progress_polling_def panel_inv_def option_list_def)
qed

lemma panel_inv_stop_background:
  assumes inv: "panel_inv s"
  shows "panel_inv (stop_background_progress_monitoring s)"
proof (cases "background_progress_check s")
  case None
  with inv show ?thesis by (simp add: stop_background_progress_monitoring_def)
next
  case (Some i)
  from inv Some have f: "timers_of Background s = [i]"
    by (simp add: panel_inv_def option_list_def)
  from inv have d: "distinct (map fst (intervals s))" by (simp add: panel_inv_def)
  have "i \<notin> set (timers_of Fast s)"
    using kinds_disjoint [OF d, of i Background Fast] f by simp
  then have b: "filter (\<lambda>j. j \<noteq> i) (timers_of Fast s) = timers_of Fast s"
    using inv by (simp add: panel_inv_def filter_option_list_other)
  let ?s = "(clear_interval i s)\<lparr>background_progress_check := None\<rparr>"
  have "timers_of Background ?s = []" "timers_of Fast ?s = timers_of Fast s"
    using timers_of_clear_interval [of _ i s] f b by (simp_all add: timers_of_def)
  moreover have "global_progress_interval ?s = global_progress_interval s"
    "next_interval ?s = next_interval s" "intervals ?s = intervals (clear_interval i s)"
    by (simp_all add: clear_interval_def)
  ultimately show ?thesis
    using inv panel_inv_clear [OF inv, of i] Some
    by (simp add: stop_background_progress_monitoring_def panel_inv_def option_list_def)
qed

lemma stop_progress_polling_fields [simp]:
  "global_progress_interval (stop_progress_polling s) = None"
  "background_progress_check (stop_progress_polling s) = background_progress_check s"
  "next_interval (stop_progress_polling s) = next_interval s"
  by (simp_all add: stop_progress_polling_def clear_interval_def split: option.splits)

lemma stop_background_fields [simp]:
  "background_progress_check (stop_background_progress_monitoring s) = None"
  "global_progress_interval (stop_background_progress_monitoring s) = global_progress_interval s"
  "next_interval (stop_background_progress_monitoring s) = next_interval s"
  by (simp_all add: stop_background_progress_monitoring_def clear_interval_def split: option.splits)

lemma panel_inv_set_interval:
  assumes inv: "panel_inv s"
  shows "distinct (map fst (intervals (snd (set_interval kind s))))"
    and "list_all (\<lambda>j. j < Suc (next_interval s)) (map fst (intervals (snd (set_interval kind s))))"
  using inv
  by (auto simp: panel_inv_def set_interval_def list_all_iff less_Suc_eq)

lemma timers_of_start_progress_polling:
  assumes inv: "panel_inv s"
  shows "timers_of Fast (start_progress_polling s) = [next_interval s]"
    and "timers_of Background (start_progress_polling s) = timers_of Background s"
proof -
  let ?t = "stop_progress_polling s"
  note t = panel_inv_stop_progress_polling [OF inv]
  then have f: "timers_of Fast ?t = []"
    by (simp add: panel_inv_def option_list_def)
  from t inv have b: "timers_of Background ?t = timers_of Background s"
    by (simp add: panel_inv_def)
  have st: "start_progress_polling s
      = (snd (set_interval Fast ?t))\<lparr>global_progress_interval := Some (next_interval ?t)\<rparr>"
    by (simp add: start_progress_polling_def set_interval_def)
  have "timers_of k (start_progress_polling s) = timers_of k (snd (set_interval Fast ?t))" for k
    unfolding st by (simp add: timers_of_def)
  with f b timers_of_set_interval [of _ Fast ?t]
  show "timers_of Fast (start_progress_polling s) = [next_interval s]"
    and "timers_of Background (start_progress_polling s) = timers_of Background s"
    by simp_all
qed

lemma panel_inv_start_progress_polling:
  assumes inv: "panel_inv s"
  shows "panel_inv (start_progress_polling s)"
proof -
  let ?t = "stop_progress_polling s"
  note t = panel_inv_stop_progress_polling [OF inv]
  have st: "start_progress_polling s
      = (snd (set_interval Fast ?t))\<lparr>global_progress_interval := Some (next_interval s)\<rparr>"
    by (simp add: start_progress_polling_def set_interval_def)
  have flds: "intervals (start_progress_polling s) = intervals (snd (set_interval Fast ?t))"
    "next_interval (start_progress_polling s) = Suc (next_interval s)"
    "global_progress_interval (start_progress_polling s) = Some (next_interval s)"
    "background_progress_check (start_progress_polling s) = background_progress_check s"
    unfolding st by (simp_all add: set_interval_def)
  from timers_of_start_progress_polling [OF inv] panel_inv_set_interval [OF t, of Fast] inv
  show ?thesis
    by (simp add: panel_inv_def flds option_list_def)
qed

lemma timers_of_start_background:
  assumes inv: "panel_inv s"
  shows "timers_of Background (start_background_progress_monitoring s) = [next_interval s]"
    and "timers_of Fast (start_background_progress_monitoring s) = timers_of Fast s"
proof -
  let ?t = "stop_background_progress_monitoring s"
  note t = panel_inv_stop_background [OF inv]
  then have f: "timers_of Background ?t = []"
    by (simp add: panel_inv_def option_list_def)
  from t inv have b: "timers_of Fast ?t = timers_of Fast s"
    by (simp add: panel_inv_def)
  have st: "start_background_progress_monitoring s
      = (snd (set_interval Background ?t))\<lparr>background_progress_check := Some (next_interval ?t)\<rparr>"
    by (simp add: start_background_progress_monitoring_def set_interval_def)
  have "timers_of k (start_background_progress_monitoring s)
          = timers_of k (snd (set_interval Background ?t))" for k
    unfolding st by (simp add: timers_of_def)
  with f b timers_of_set_interval [of _ Background ?t]
  show "timers_of Background (start_background_progress_monitoring s) = [next_interval s]"
    and "timers_of Fast (start_background_progress_monitoring s) = timers_of Fast s"
    by simp_all
qed

lemma panel_inv_start_background:
  assumes inv: "panel_inv s"
  shows "panel_inv (start_background_progress_monitoring s)"
proof -
  let ?t = "stop_background_progress_monitoring s"
  note t = panel_inv_stop_background [OF inv]
  have st: "start_background_progress_monitoring s
      = (snd (set_interval Background ?t))\<lparr>background_progress_check := Some (next_interval s)\<rparr>"
    by (simp add: start_background_progress_monitoring_def set_interval_def)
  have flds: "intervals (start_background_progress_monitoring s)
                = intervals (snd (set_interval Background ?t))"
    "next_interval (start_background_progress_monitoring s) = Suc (next_interval s)"
    "background_progress_check (start_background_progress_monitoring s) = Some (next_interval s)"
    "global_progress_interval (start_background_progress_monitoring s) = global_progress_interval s"
    unfolding st by (simp_all add: set_interval_def)
  from timers_of_start_background [OF inv] panel_inv_set_interval [OF t, of Background] inv
  show ?thesis
    by (simp add: panel_inv_def flds option_list_def)
qed

lemma panel_inv_same_timers:
  "panel_inv t \<Longrightarrow> timer_state s' = timer_state t \<Longrightarrow> panel_inv s'"
  using panel_inv_timer_state by blast

lemma panel_inv_fast_tick_reply:
  assumes inv: "panel_inv s"
  shows "panel_inv (fast_tick_reply reply s)"
proof (cases reply)
  case (Snapshot pr)
  have u: "panel_inv (update_progress_display pr s)"
    by (rule panel_inv_same_timers [OF inv]) simp
  show ?thesis
  proof (cases "\<not> pr_error pr \<and> \<not> pr_active pr")
    case True
    have st: "panel_inv (stop_progress_polling (update_progress_display pr s))"
      by (rule panel_inv_stop_progress_polling [OF u])
    show ?thesis
      by (rule panel_inv_same_timers [OF st])
        (use True Snapshot in \<open>simp add: fast_tick_reply_def Let_def\<close>)
  next
    case False
    with Snapshot u inv show ?thesis by (auto simp: fast_tick_reply_def Let_def)
  qed
qed (simp_all add: fast_tick_reply_def inv panel_inv_stop_progress_polling)

lemma panel_inv_check_reply:
  assumes inv: "panel_inv s"
  shows "panel_inv (check_embedding_progress_reply reply s)"
proof (cases reply)
  case (Snapshot pr)
  have "panel_inv (update_progress_display pr (set_container container_active
          (s\<lparr>gen_button_disabled := True, gen_button_text := ''Generating...''\<rparr>)))"
    by (rule panel_inv_same_timers [OF inv]) simp
  then show ?thesis
    using Snapshot inv
    by (auto simp: check_embedding_progress_reply_def Let_def
        intro: panel_inv_start_progress_polling)
qed (simp_all add: check_embedding_progress_reply_def inv)

lemma panel_inv_check_open:
  "panel_inv s \<Longrightarrow> panel_inv (check_embedding_progress_on_open s)"
  by (erule panel_inv_same_timers) (simp add: check_embedding_progress_on_open_def)

lemma panel_inv_background_tick_reply:
  assumes inv: "panel_inv s"
  shows "panel_inv (background_tick_reply reply s)"
  using inv
  by (cases reply)
    (auto simp: background_tick_reply_def panel_inv_stop_background panel_inv_check_open)

lemma panel_inv_trigger:
  assumes inv: "panel_inv s"
  shows "panel_inv (trigger_embedding_generation s)"
proof -
  have "panel_inv (set_container container_active
          (s\<lparr>gen_button_disabled := True, gen_button_text := ''Generating...''\<rparr>))"
    by (rule panel_inv_same_timers [OF inv]) simp
  then have "panel_inv (start_progress_polling (set_container container_active
          (s\<lparr>gen_button_disabled := True, gen_button_text := ''Generating...''\<rparr>)))"
    by (rule panel_inv_start_progress_polling)
  then show ?thesis
    by (rule panel_inv_same_timers)
      (simp add: trigger_embedding_generation_def Let_def timer_state_def)
qed

lemma panel_inv_trigger_reply:
  assumes inv: "panel_inv s"
  shows "panel_inv (trigger_embedding_generation_reply reply s)"
proof -
  have t: "panel_inv (panel_toast f a b s)" for f a b
    by (rule panel_inv_same_timers [OF inv]) simp
  have st: "panel_inv (stop_progress_polling s)"
    by (rule panel_inv_stop_progress_polling [OF inv])
  have "panel_inv (case reply of
          GenThrows message \<Rightarrow>
            set_container container_idle
              (stop_progress_polling
                 (panel_toast showError ''Embedding Generation Error''
                    (''Failed to generate embeddings: '' @ message) s))
        | GenNotOk \<Rightarrow>
            panel_toast showError ''Generation Failed'' ''Unable to start embedding generation''
              (stop_progress_polling s)
        | GenResult result \<Rightarrow>
            let s1 = stop_progress_polling s
            in if gr_success result
               then update_progress_display
                      \<lparr>pr_error = False, pr_active = False, pr_stage = ''Completed'',
                       pr_percentage = 100\<rparr>
                      (panel_toast showSuccess ''Embedding Generation Complete''
                         (''Processed: '' @ show_int (gr_processed result)
                            @ '', Skipped: '' @ show_int (gr_skipped result)
                            @ '', Errors: '' @ show_int (gr_errors result)) s1)
               else set_container container_idle
                      (panel_toast showError ''Embedding Generation Failed'' (gr_error result) s1))"
  proof (cases reply)
    case (GenThrows m)
    have "panel_inv (stop_progress_polling (panel_toast showError ''Embedding Generation Error''
                    (''Failed to generate embeddings: '' @ m) s))"
      by (rule panel_inv_stop_progress_polling [OF t])
    then show ?thesis
      unfolding GenThrows by (rule panel_inv_same_timers) simp
  next
    case GenNotOk
    show ?thesis
      unfolding GenNotOk by (rule panel_inv_same_timers [OF st]) simp
  next
    case (GenResult r)
    show ?thesis
      unfolding GenResult by (rule panel_inv_same_timers [OF st]) (simp add: Let_def)
  qed
  then show ?thesis
    unfolding trigger_embedding_generation_reply_def
    by (rule panel_inv_same_timers) simp
qed

lemma panel_inv_timeout:
  "panel_inv s \<Longrightarrow> panel_inv (run_panel_timeout t s)"
  by (cases t) (auto elim: panel_inv_same_timers)

lemma panel_inv_step:
  assumes inv: "panel_inv s"
  shows "panel_inv (step e s)"
proof (cases e)
  case ShowPanel
  have "panel_inv (s\<lparr>is_debug_open := True\<rparr>)"
    by (rule panel_inv_same_timers [OF inv]) simp
  then show ?thesis
    using inv ShowPanel
    by (simp add: show_debug_panel_def panel_inv_check_open panel_inv_start_background)
next
  case HidePanel
  have "panel_inv (stop_background_progress_monitoring (stop_progress_polling s))"
    by (intro panel_inv_stop_background panel_inv_stop_progress_polling inv)
  then have "panel_inv ((stop_background_progress_monitoring (stop_progress_polling s))
      \<lparr>panel_timeouts := ts\<rparr>)" for ts
    by (rule panel_inv_same_timers) simp
  then show ?thesis
    using inv HidePanel by (simp add: hide_debug_panel_def Let_def)
next
  case ClickGenerate
  then show ?thesis using inv by (simp add: panel_inv_trigger)
next
  case (IntervalFires i)
  have "panel_inv (fetch_progress k s)" for k
    by (rule panel_inv_same_timers [OF inv]) simp
  then show ?thesis
    using inv IntervalFires
    by (simp add: fast_tick_def background_tick_def split: option.splits interval_kind.splits)
next
  case (Arrives k reply)
  have "panel_inv (s\<lparr>pending := pe\<rparr>)" for pe
    by (rule panel_inv_same_timers [OF inv]) simp
  then show ?thesis
    using inv Arrives
    by (simp add: panel_inv_fast_tick_reply panel_inv_background_tick_reply
        panel_inv_check_reply split: pending.splits)
next
  case (GenerateArrives k reply)
  have "panel_inv (s\<lparr>pending := pe\<rparr>)" for pe
    by (rule panel_inv_same_timers [OF inv]) simp
  then show ?thesis
    using inv GenerateArrives by (simp add: panel_inv_trigger_reply)
next
  case (TimeoutFires k)
  have "panel_inv (s\<lparr>panel_timeouts := ts\<rparr>)" for ts
    by (rule panel_inv_same_timers [OF inv]) simp
  then show ?thesis
    using inv TimeoutFires by (simp add: panel_inv_timeout)
qed

lemma panel_inv_init: "panel_inv panel_init"
  by (simp add: panel_inv_def panel_init_def timers_of_def option_list_def)

lemma panel_inv_run: "panel_inv s \<Longrightarrow> panel_inv (run es s)"
  by (induction es arbitrary: s) (simp_all add: panel_inv_step)

lemma panel_inv_at_most_one:
  "panel_inv s \<Longrightarrow> length (timers_of kind s) \<le> 1"
  by (cases kind) (auto simp: panel_inv_def option_list_def split: option.splits)

lemma without_last [simp]: "without (length xs) (xs @ [x]) = xs"
  by (simp add: without_def)

lemma panel_inv_fast_lookup:
  assumes "panel_inv s" and "global_progress_interval s = Some i"
  shows "map_of (intervals s) i = Some Fast"
proof -
  from assms have "i \<in> set (timers_of Fast s)"
    by (simp add: panel_inv_def option_list_def)
  then have "(i, Fast) \<in> set (intervals s)" by (simp add: mem_timers_of)
  with assms(1) show ?thesis by (simp add: panel_inv_def)
qed

lemma progress_cycle_active:
  assumes "panel_inv s" and "global_progress_interval s = Some i"
    and "\<not> pr_error pr" and "pr_active pr"
  shows "progress_cycle (Snapshot pr) s =
           update_progress_display pr (s\<lparr>panel_requests := panel_requests s @ [progress_url]\<rparr>)"
  using assms panel_inv_fast_lookup [OF assms(1,2)]
  by (simp add: progress_cycle_def fast_tick_def fetch_progress_def fast_tick_reply_def
      progress_url_def)

lemma progress_cycle_throws:
  assumes "panel_inv s" and "global_progress_interval s = Some i"
  shows "progress_cycle (Throws m) s = s\<lparr>panel_requests := panel_requests s @ [progress_url]\<rparr>"
  using assms panel_inv_fast_lookup [OF assms(1,2)]
  by (simp add: progress_cycle_def fast_tick_def fetch_progress_def fast_tick_reply_def
      progress_url_def)

lemma progress_cycle_inactive:
  assumes "panel_inv s" and "global_progress_interval s = Some i"
    and "\<not> pr_error pr" and "\<not> pr_active pr"
  shows "progress_cycle (Snapshot pr) s =
           (set_container container_completed
              ((stop_progress_polling
                  (update_progress_display pr
                     (s\<lparr>panel_requests := panel_requests s @ [progress_url]\<rparr>)))
                 \<lparr>gen_button_disabled := False, gen_button_text := ''Generate Embeddings''\<rparr>))
             \<lparr>panel_timeouts := panel_timeouts s @ [IdleReset]\<rparr>"
  using assms panel_inv_fast_lookup [OF assms(1,2)]
  by (simp add: progress_cycle_def fast_tick_def fetch_progress_def fast_tick_reply_def
      progress_url_def Let_def set_container_def stop_progress_polling_def clear_interval_def
      update_progress_display_def)

lemma progress_cycles_append:
  "progress_cycles (xs @ ys) s = progress_cycles ys (progress_cycles xs s)"
  by (induction xs arbitrary: s) simp_all

lemma progress_cycles_active:
  assumes "panel_inv s" and "global_progress_interval s = Some i"
    and "list_all (\<lambda>pr. \<not> pr_error pr \<and> pr_active pr) ps"
  shows "timer_state (progress_cycles (map Snapshot ps) s) = timer_state s \<and>
         ui_log (progress_cycles (map Snapshot ps) s) = ui_log s @ map Rendered ps \<and>
         panel_requests (progress_cycles (map Snapshot ps) s)
           = panel_requests s @ replicate (length ps) progress_url \<and>
         pending (progress_cycles (map Snapshot ps) s) = pending s \<and>
         panel_timeouts (progress_cycles (map Snapshot ps) s) = panel_timeouts s"
  using assms
proof (induction ps arbitrary: s)
  case Nil
  then show ?case by simp
next
  case (Cons pr ps)
  let ?s = "update_progress_display pr (s\<lparr>panel_requests := panel_requests s @ [progress_url]\<rparr>)"
  from Cons.prems have c: "progress_cycle (Snapshot pr) s = ?s"
    by (intro progress_cycle_active) simp_all
  have ts: "timer_state ?s = timer_state s" by simp
  then have inv: "panel_inv ?s" using Cons.prems(1) panel_inv_same_timers by blast
  from ts Cons.prems(2) have g: "global_progress_interval ?s = Some i"
    by (simp add: timer_state_def)
  from Cons.prems(3) have "list_all (\<lambda>pr. \<not> pr_error pr \<and> pr_active pr) ps" by simp
  from Cons.IH [OF inv g this] ts c show ?case
    by (simp add: update_progress_display_def replicate_append_same)
qed

text \<open>
  Claim C5, as amended: when every reply arrives before the timer fires again. The fast
  poller is running and sees the job active for some cycles, then not active. Over these cycles every snapshot is rendered once, in order, and after the last
  one the container is set to completed, once. The poller has then stopped itself: its
  timer is gone and does not fire, no request is outstanding beyond those that were, and
  further cycles do nothing.
\<close>

theorem completion_once:
  assumes inv: "panel_inv s" and g: "global_progress_interval s = Some i"
    and act: "list_all (\<lambda>pr. \<not> pr_error pr \<and> pr_active pr) ps"
    and fin: "\<not> pr_error fin" "\<not> pr_active fin"
  shows "let s' = progress_cycles (map Snapshot ps @ [Snapshot fin]) s
         in ui_log s' = ui_log s @ map Rendered ps
                          @ [Rendered fin, ContainerSet container_completed] \<and>
            progress_view s' = Rendered_from fin \<and>
            container_class s' = container_completed \<and>
            global_progress_interval s' = None \<and>
            timers_of Fast s' = [] \<and>
            panel_requests s' = panel_requests s @ replicate (Suc (length ps)) progress_url \<and>
            pending s' = pending s \<and>
            step (IntervalFires i) s' = s' \<and>
            (\<forall>reply. progress_cycle reply s' = s')"
proof -
  let ?t = "progress_cycles (map Snapshot ps) s"
  note a = progress_cycles_active [OF inv g act]
  then have ts: "timer_state ?t = timer_state s" by simp
  then have inv': "panel_inv ?t" using inv panel_inv_same_timers by blast
  from ts g have g': "global_progress_interval ?t = Some i" by (simp add: timer_state_def)
  let ?u = "update_progress_display fin (?t\<lparr>panel_requests := panel_requests ?t @ [progress_url]\<rparr>)"
  let ?s' = "progress_cycles (map Snapshot ps @ [Snapshot fin]) s"
  have s': "?s' = (set_container container_completed
              ((stop_progress_polling ?u)
                 \<lparr>gen_button_disabled := False, gen_button_text := ''Generate Embeddings''\<rparr>))
             \<lparr>panel_timeouts := panel_timeouts ?t @ [IdleReset]\<rparr>"
    using progress_cycle_inactive [OF inv' g' fin] by (simp add: progress_cycles_append)
  have invu: "panel_inv ?u" by (rule panel_inv_same_timers [OF inv']) simp
  have gu: "global_progress_interval ?u = Some i"
    using g' by (simp add: update_progress_display_def)
  have invs: "panel_inv (stop_progress_polling ?u)"
    by (rule panel_inv_stop_progress_polling [OF invu])
  have tss: "timer_state ?s' = timer_state (stop_progress_polling ?u)"
    unfolding s' by simp
  then have inv_s': "panel_inv ?s'" using invs panel_inv_same_timers by blast
  from tss have gn: "global_progress_interval ?s' = None"
    by (simp add: timer_state_def)
  have tf: "timers_of Fast ?s' = []"
    using inv_s' gn by (simp add: panel_inv_def option_list_def)
  have "(i, Fast) \<notin> set (intervals ?s')"
    using tf mem_timers_of [of i Fast ?s'] by simp
  moreover have "(i, Background) \<notin> set (intervals ?s')"
  proof -
    have "intervals ?s' = AList.delete i (intervals ?u)"
      using tss gu by (simp add: timer_state_def stop_progress_polling_def clear_interval_def)
    then show ?thesis using delete_notin_dom [of i "intervals ?u"] by force
  qed
  ultimately have "map_of (intervals ?s') i = None"
    by (metis interval_kind.exhaust map_of_SomeD not_Some_eq)
  then have fire: "step (IntervalFires i) ?s' = ?s'" by simp
  have cyc: "\<forall>reply. progress_cycle reply ?s' = ?s'"
    using gn by (simp add: progress_cycle_def)
  have log: "ui_log ?s' = ui_log s @ map Rendered ps
                          @ [Rendered fin, ContainerSet container_completed]"
    unfolding s' using a
    by (simp add: set_container_def stop_progress_polling_def clear_interval_def
        update_progress_display_def split: option.splits)
  have view: "progress_view ?s' = Rendered_from fin" "container_class ?s' = container_completed"
    "pending ?s' = pending s"
    "panel_requests ?s' = panel_requests s @ replicate (Suc (length ps)) progress_url"
    unfolding s' using a
    by (simp_all add: set_container_def stop_progress_polling_def clear_interval_def
        update_progress_display_def replicate_append_same split: option.splits)
  from log view gn tf fire cyc show ?thesis by (simp add: Let_def)
qed

lemmas panel_eval =
  show_debug_panel_def hide_debug_panel_def trigger_embedding_generation_def
  start_background_progress_monitoring_def stop_background_progress_monitoring_def
  start_progress_polling_def stop_progress_polling_def set_interval_def clear_interval_def
  check_embedding_progress_on_open_def check_embedding_progress_reply_def fetch_progress_def
  fast_tick_def fast_tick_reply_def background_tick_def background_tick_reply_def
  trigger_embedding_generation_reply_def generation_finally_def panel_toast_def
  set_container_def update_progress_display_def without_def running_def half_way_def
  panel_init_def Let_def

lemma race_prefix_state:
  "global_progress_interval (run race_prefix panel_init) = Some 2"
  "pending (run race_prefix panel_init) = [Generate, CheckOpen]"
  "intervals (run race_prefix panel_init) = [(1, Background), (2, Fast)]"
  by (simp_all add: race_prefix_def panel_eval)

theorem completion_once_witness:
  "panel_inv (trigger_embedding_generation panel_init) \<and>
   global_progress_interval (trigger_embedding_generation panel_init) = Some 1 \<and>
   list_all (\<lambda>pr. \<not> pr_error pr \<and> pr_active pr) [half_way True] \<and>
   \<not> pr_error (half_way False) \<and> \<not> pr_active (half_way False) \<and>
   ui_log (progress_cycles [running True, running False] (trigger_embedding_generation panel_init))
     = [ContainerSet container_active, Rendered (half_way True), Rendered (half_way False),
        ContainerSet container_completed]"
proof -
  have inv: "panel_inv (trigger_embedding_generation panel_init)"
    by (intro panel_inv_trigger panel_inv_init)
  have g: "global_progress_interval (trigger_embedding_generation panel_init) = Some 1"
    by (simp add: panel_eval)
  have l: "ui_log (trigger_embedding_generation panel_init) = [ContainerSet container_active]"
    by (simp add: panel_eval)
  have act: "list_all (\<lambda>pr. \<not> pr_error pr \<and> pr_active pr) [half_way True]"
    by (simp add: half_way_def)
  have fin: "\<not> pr_error (half_way False)" "\<not> pr_active (half_way False)"
    by (simp_all add: half_way_def)
  from completion_once [OF inv g act fin] inv g act fin l
  show ?thesis by (simp add: Let_def running_def)
qed

text \<open>
  Claim C5 fails as stated when replies overlap: the timer fires again before the reply
  that reports the job finished is there; that reply completes and stops the poller, and
  the reply to the request still in flight completes a second time.
\<close>

theorem overlapping_completion_counterexample:
  "global_progress_interval (trigger_embedding_generation panel_init) = Some 1 \<and>
   ui_log (run [IntervalFires 1, Arrives 1 (running True), IntervalFires 1, IntervalFires 1,
                Arrives 1 (running False), Arrives 1 (running False)]
             (trigger_embedding_generation panel_init))
     = [ContainerSet container_active, Rendered (half_way True),
        Rendered (half_way False), ContainerSet container_completed,
        Rendered (half_way False), ContainerSet container_completed]"
  by (simp add: panel_eval)

text \<open>
  Claim C4, as amended. Stopping the fast poller cancels its timer, which then fires no
  more; that is all it does. A reply to a request that a fast poller left in flight is
  handled when it arrives whatever has been stopped or started since: its snapshot, unless
  it carries an error, is rendered into the progress display, and when it reports the job
  as not active the container is set to completed. No token or poller id is compared.
\<close>

theorem stale_reply_is_applied:
  "(panel_inv s \<and> global_progress_interval s = Some i \<longrightarrow>
      timers_of Fast (stop_progress_polling s) = [] \<and>
      step (IntervalFires i) (stop_progress_polling s) = stop_progress_polling s) \<and>
   (k < length (pending t) \<and> pending t ! k = FastTick \<and> \<not> pr_error pr \<longrightarrow>
      progress_view (step (Arrives k (Snapshot pr)) t) = Rendered_from pr \<and>
      ui_log (step (Arrives k (Snapshot pr)) t) =
        ui_log t @ (if pr_active pr then [Rendered pr]
                    else [Rendered pr, ContainerSet container_completed]))"
proof (intro conjI impI)
  assume a: "panel_inv s \<and> global_progress_interval s = Some i"
  then have inv: "panel_inv (stop_progress_polling s)"
    by (simp add: panel_inv_stop_progress_polling)
  then show tf: "timers_of Fast (stop_progress_polling s) = []"
    by (simp add: panel_inv_def option_list_def)
  have "intervals (stop_progress_polling s) = AList.delete i (intervals s)"
    using a by (simp add: stop_progress_polling_def clear_interval_def)
  then have "map_of (intervals (stop_progress_polling s)) i = None"
    by (simp add: delete_conv')
  then show "step (IntervalFires i) (stop_progress_polling s) = stop_progress_polling s"
    by simp
next
  assume b: "k < length (pending t) \<and> pending t ! k = FastTick \<and> \<not> pr_error pr"
  then show "progress_view (step (Arrives k (Snapshot pr)) t) = Rendered_from pr"
    by (simp add: fast_tick_reply_def Let_def set_container_def stop_progress_polling_def
        clear_interval_def update_progress_display_def split: option.splits)
  from b show "ui_log (step (Arrives k (Snapshot pr)) t) =
        ui_log t @ (if pr_active pr then [Rendered pr]
                    else [Rendered pr, ContainerSet container_completed])"
    by (simp add: fast_tick_reply_def Let_def set_container_def stop_progress_polling_def
        clear_interval_def update_progress_display_def split: option.splits)
qed

lemma stale_prefix_state:
  "global_progress_interval (run stale_prefix panel_init) = Some 3"
  "pending (run stale_prefix panel_init) = [FastTick, Generate]"
  "progress_view (run stale_prefix panel_init) = Unset"
  "ui_log (run stale_prefix panel_init)
     = [ContainerSet container_active, ContainerSet container_active]"
  by (simp_all add: stale_prefix_def panel_eval)

theorem stale_reply_is_applied_witness:
  "panel_inv (trigger_embedding_generation panel_init) \<and>
   global_progress_interval (trigger_embedding_generation panel_init) = Some 1 \<and>
   0 < length (pending (run stale_prefix panel_init)) \<and>
   pending (run stale_prefix panel_init) ! 0 = FastTick \<and>
   \<not> pr_error (half_way True) \<and>
   step (IntervalFires 1) (stop_progress_polling (trigger_embedding_generation panel_init))
     = stop_progress_polling (trigger_embedding_generation panel_init) \<and>
   ui_log (step (Arrives 0 (Snapshot (half_way True))) (run stale_prefix panel_init))
     = [ContainerSet container_active, ContainerSet container_active, Rendered (half_way True)]"
proof -
  have inv: "panel_inv (trigger_embedding_generation panel_init)"
    by (intro panel_inv_trigger panel_inv_init)
  have g: "global_progress_interval (trigger_embedding_generation panel_init) = Some 1"
    by (simp add: panel_eval)
  have e: "\<not> pr_error (half_way True)" "pr_active (half_way True)"
    by (simp_all add: half_way_def)
  from stale_reply_is_applied [of "trigger_embedding_generation panel_init" 1 0
      "run stale_prefix panel_init" "half_way True"] inv g e stale_prefix_state
  show ?thesis by simp
qed

text \<open>
  Claim C4 fails as stated: the request that poller 2 left in flight is answered after
  poller 2 was stopped and poller 3 started; the reply is rendered, marks the container
  completed and stops poller 3.
\<close>

theorem stale_reply_counterexample:
  "global_progress_interval (run stale_prefix panel_init) = Some 3 \<and>
   pending (run stale_prefix panel_init) = [FastTick, Generate] \<and>
   progress_view (run stale_prefix panel_init) = Unset \<and>
   progress_view (run (stale_prefix @ [Arrives 0 (running False)]) panel_init)
     = Rendered_from (half_way False) \<and>
   container_class (run (stale_prefix @ [Arrives 0 (running False)]) panel_init)
     = container_completed \<and>
   global_progress_interval (run (stale_prefix @ [Arrives 0 (running False)]) panel_init) = None"
  by (simp add: stale_prefix_def panel_eval)

lemma poll_run_stopped:
  assumes "\<not> timer_active pl" "status_inflight pl = 0" "retry_inflight pl = 0"
  shows "poll_run es (pl, p) = (pl, p)"
proof (induction es)
  case Nil
  show ?case by simp
next
  case (Cons e es)
  have "poll_step e (pl, p) = (pl, p)"
    using assms by (cases e) (simp_all add: tick_fire_def status_arrives_def retry_arrives_def)
  with Cons show ?case by simp
qed

text \<open>
  Claim C6, as amended. On the search page a status poll that fails (the fetch or the
  parsing of its reply throws) ends the polling: the timer is cleared and fires no more, the
  failed tick itself sends no request, and \<open>Search failed:\<close> with the message of the error
  is surfaced. When no other tick of the poller is in flight at that moment, nothing that
  happens to the poller afterwards sends a request or changes anything. The fast progress
  poller of the debug panel does swallow such a failure: after the cycle nothing but the
  list of requests sent has changed, and the timer is still set.
\<close>

theorem failed_status_tick_aborts:
  "(0 < status_inflight pl \<longrightarrow>
      \<not> timer_active (fst (status_arrives (StatusFailed m) (pl, p))) \<and>
      shown (snd (status_arrives (StatusFailed m) (pl, p)))
        = shown p @ [ErrorMessage (''Search failed: '' @ m)] \<and>
      requests (snd (status_arrives (StatusFailed m) (pl, p))) = requests p \<and>
      tick_fire (status_arrives (StatusFailed m) (pl, p))
        = status_arrives (StatusFailed m) (pl, p)) \<and>
   (status_inflight pl = 1 \<and> retry_inflight pl = 0 \<longrightarrow>
      (\<forall>es. poll_run es (status_arrives (StatusFailed m) (pl, p))
              = status_arrives (StatusFailed m) (pl, p))) \<and>
   (panel_inv s \<and> global_progress_interval s = Some i \<longrightarrow>
      progress_cycle (Throws m') s = s\<lparr>panel_requests := panel_requests s @ [progress_url]\<rparr>)"
proof (intro conjI impI allI)
  assume a: "0 < status_inflight pl"
  let ?c = "status_arrives (StatusFailed m) (pl, p)"
  from a have c: "?c = poll_catch m (pl\<lparr>status_inflight := status_inflight pl - 1\<rparr>, p)"
    by (simp add: status_arrives_def Let_def)
  show stopped: "\<not> timer_active (fst ?c)"
    unfolding c poll_catch_log by simp
  show "shown (snd ?c) = shown p @ [ErrorMessage (''Search failed: '' @ m)]"
    unfolding c poll_catch_log ..
  show "requests (snd ?c) = requests p"
    unfolding c poll_catch_log ..
  show "tick_fire ?c = ?c"
    using tick_fire_stopped [OF stopped, of "snd ?c"] by simp
next
  fix es
  assume b: "status_inflight pl = 1 \<and> retry_inflight pl = 0"
  let ?c = "status_arrives (StatusFailed m) (pl, p)"
  from b have c: "?c = poll_catch m (pl\<lparr>status_inflight := 0\<rparr>, p)"
    by (simp add: status_arrives_def Let_def)
  have f: "fst ?c = pl\<lparr>status_inflight := 0, timer_active := False\<rparr>"
    unfolding c poll_catch_log ..
  have "\<not> timer_active (fst ?c)" "status_inflight (fst ?c) = 0" "retry_inflight (fst ?c) = 0"
    unfolding f using b by simp_all
  from poll_run_stopped [OF this, of es "snd ?c"]
  show "poll_run es ?c = ?c" by simp
next
  assume "panel_inv s \<and> global_progress_interval s = Some i"
  then show "progress_cycle (Throws m') s
      = s\<lparr>panel_requests := panel_requests s @ [progress_url]\<rparr>"
    using progress_cycle_throws by blast
qed

theorem failed_status_tick_aborts_witness:
  "0 < status_inflight (fst (tick_fire (poll_for_model_ready_and_search dogs ''/search'',
                                        page_with_query ''dogs''))) \<and>
   status_inflight (fst (tick_fire (poll_for_model_ready_and_search dogs ''/search'',
                                    page_with_query ''dogs''))) = 1 \<and>
   retry_inflight (fst (tick_fire (poll_for_model_ready_and_search dogs ''/search'',
                                   page_with_query ''dogs''))) = 0 \<and>
   panel_inv (trigger_embedding_generation panel_init) \<and>
   global_progress_interval (trigger_embedding_generation panel_init) = Some 1 \<and>
   shown (snd (cycle (StatusFailed ''Failed to fetch'')
                 (poll_for_model_ready_and_search dogs ''/search'', page_with_query ''dogs'')))
     = [ErrorMessage ''Search failed: Failed to fetch''] \<and>
   poll_run [Fire, StatusReply (StatusData True ''loaded''),
             RetryReply (SearchReplied 200 three_results)]
     (cycle (StatusFailed ''Failed to fetch'')
        (poll_for_model_ready_and_search dogs ''/search'', page_with_query ''dogs''))
     = cycle (StatusFailed ''Failed to fetch'')
         (poll_for_model_ready_and_search dogs ''/search'', page_with_query ''dogs'') \<and>
   global_progress_interval
     (progress_cycle (Throws ''Failed to fetch'') (trigger_embedding_generation panel_init))
     = Some 1"
proof -
  let ?pl = "poll_for_model_ready_and_search dogs ''/search''"
  let ?p = "page_with_query ''dogs''"
  let ?pl1 = "?pl\<lparr>attempts := 1, status_inflight := 1\<rparr>"
  let ?p1 = "?p\<lparr>requests := [status_request]\<rparr>"
  have tf: "tick_fire (?pl, ?p) = (?pl1, ?p1)"
    by (simp add: tick_fire_def poll_for_model_ready_and_search_def page_with_query_def
        status_request_def)
  have a: "0 < status_inflight ?pl1" "status_inflight ?pl1 = 1" "retry_inflight ?pl1 = 0"
    by (simp_all add: poll_for_model_ready_and_search_def)
  have inv: "panel_inv (trigger_embedding_generation panel_init)"
    by (intro panel_inv_trigger panel_inv_init)
  have g: "global_progress_interval (trigger_embedding_generation panel_init) = Some 1"
    by (simp add: panel_eval)
  have sh: "shown ?p1 = []"
    by (simp add: page_with_query_def)
  note T = failed_status_tick_aborts [of ?pl1 "''Failed to fetch''" ?p1
      "trigger_embedding_generation panel_init" 1 "''Failed to fetch''"]
  from T a(1) sh have s: "shown (snd (status_arrives (StatusFailed ''Failed to fetch'')
      (?pl1, ?p1))) = [ErrorMessage ''Search failed: Failed to fetch'']"
    by simp
  from T a(2,3) have "\<forall>es. poll_run es (status_arrives (StatusFailed ''Failed to fetch'')
      (?pl1, ?p1)) = status_arrives (StatusFailed ''Failed to fetch'') (?pl1, ?p1)"
    by blast
  then have r: "poll_run [Fire, StatusReply (StatusData True ''loaded''),
             RetryReply (SearchReplied 200 three_results)]
      (status_arrives (StatusFailed ''Failed to fetch'') (?pl1, ?p1))
      = status_arrives (StatusFailed ''Failed to fetch'') (?pl1, ?p1)"
    by blast
  from T inv g have pg: "global_progress_interval
     (progress_cycle (Throws ''Failed to fetch'') (trigger_embedding_generation panel_init))
     = Some 1"
    by simp
  from s r pg a inv g show ?thesis
    unfolding cycle_def tf by simp
qed

text \<open>
  Claim C6 fails as stated on the search page: the first status poll fails, the timer is
  cleared and the error is surfaced.
\<close>

theorem failed_status_tick_counterexample:
  "\<not> timer_active (fst (cycle (StatusFailed ''Failed to fetch'')
        (poll_for_model_ready_and_search dogs ''/search'', page_with_query ''dogs''))) \<and>
   shown (snd (cycle (StatusFailed ''Failed to fetch'')
        (poll_for_model_ready_and_search dogs ''/search'', page_with_query ''dogs'')))
     = [ErrorMessage ''Search failed: Failed to fetch'']"
proof -
  have idle: "timer_active (poll_for_model_ready_and_search dogs ''/search'')"
    "status_inflight (poll_for_model_ready_and_search dogs ''/search'') = 0"
    by (simp_all add: poll_for_model_ready_and_search_def)
  from cycle_failed [OF idle, of "''Failed to fetch''" "page_with_query ''dogs''"]
  show ?thesis by (simp add: page_with_query_def)
qed

text \<open>
  Claim C7, as amended. After any sequence of events at most one fast and at most one
  background timer are running; starting either kind leaves exactly the new timer of that
  kind running; a background tick that fires while a fast poller is set does nothing; and
  a background reply that does not report a running job hands nothing over.
\<close>

theorem one_poller_of_each_kind:
  "length (timers_of Fast (run es panel_init)) \<le> 1 \<and>
   length (timers_of Background (run es panel_init)) \<le> 1 \<and>
   timers_of Fast (start_progress_polling (run es panel_init))
     = [next_interval (run es panel_init)] \<and>
   timers_of Background (start_background_progress_monitoring (run es panel_init))
     = [next_interval (run es panel_init)] \<and>
   (global_progress_interval (run es panel_init) \<noteq> None \<longrightarrow>
      background_tick (run es panel_init) = run es panel_init) \<and>
   (pr_error pr \<or> \<not> pr_active pr \<longrightarrow>
      background_tick_reply (Snapshot pr) (run es panel_init) = run es panel_init)"
proof -
  have inv: "panel_inv (run es panel_init)"
    by (intro panel_inv_run panel_inv_init)
  show ?thesis
    using panel_inv_at_most_one [OF inv] timers_of_start_progress_polling(1) [OF inv]
      timers_of_start_background(1) [OF inv]
    by (auto simp: background_tick_def background_tick_reply_def)
qed

theorem one_poller_of_each_kind_witness:
  "global_progress_interval (run race_prefix panel_init) \<noteq> None \<and>
   (pr_error (half_way False) \<or> \<not> pr_active (half_way False)) \<and>
   length (timers_of Fast (run race_prefix panel_init)) \<le> 1 \<and>
   timers_of Fast (start_progress_polling (run race_prefix panel_init)) = [3] \<and>
   background_tick (run race_prefix panel_init) = run race_prefix panel_init \<and>
   background_tick_reply (running False) (run race_prefix panel_init)
     = run race_prefix panel_init"
proof -
  have n: "next_interval (run race_prefix panel_init) = 3"
    by (simp add: race_prefix_def panel_eval)
  have h: "pr_error (half_way False) \<or> \<not> pr_active (half_way False)"
    by (simp add: half_way_def)
  from one_poller_of_each_kind [of race_prefix "half_way False"] race_prefix_state n h
  show ?thesis by (simp add: running_def)
qed

text \<open>
  Claim C7 fails as stated in its last part: the background tick fired when no fast poller
  was set; by the time its second reply arrives fast poller 2 is running, and the hand-over
  starts fast poller 3 in its place.
\<close>

theorem background_handoff_counterexample:
  "global_progress_interval (run race_prefix panel_init) = Some 2 \<and>
   pending (run race_prefix panel_init) = [Generate, CheckOpen] \<and>
   global_progress_interval (run (race_prefix @ [Arrives 1 (running True)]) panel_init)
     = Some 3 \<and>
   intervals (run (race_prefix @ [Arrives 1 (running True)]) panel_init)
     = [(1, Background), (3, Fast)]"
  by (simp add: race_prefix_def panel_eval)

end
